theory Spec2Isabelle
  imports Complex_Main "HOL-Library.Log_Nat"
begin

section \<open>JavaScript numbers\<close>

text \<open>
  The scheduling code computes with JavaScript numbers, that is IEEE 754 binary64 values.
  A finite number is modelled by the rational it denotes, and every arithmetic operation
  rounds its exact result to the nearest binary64 value, ties to the even significand.
  The exponent range is left unbounded: overflow to an infinity and gradual underflow are
  not modelled (the integer columns of the store hold 32-bit values, far inside the range).
  A division by zero, which yields NaN or an infinity, is written out where the code can
  reach one.
\<close>

type_synonym number = rat

definition round_half_even :: "rat \<Rightarrow> int" where
  "round_half_even x =
     (let f = \<lfloor>x\<rfloor>; d = x - of_int f in
      if d < 1 / 2 then f
      else if 1 / 2 < d then f + 1
      else if even f then f else f + 1)"

text \<open>The binary exponent of a positive rational: \<open>2 powi e \<le> x < 2 powi (e + 1)\<close>.\<close>

definition exponent :: "rat \<Rightarrow> int" where
  "exponent x = (if 1 \<le> x then bitlen \<lfloor>x\<rfloor> - 1 else - bitlen (\<lceil>1 / x\<rceil> - 1))"

text \<open>Rounding to 53 significant bits.\<close>

definition binary64 :: "rat \<Rightarrow> number" where
  "binary64 x =
     (if x = 0 then 0
      else let u = 2 powi (exponent \<bar>x\<bar> - 52)
           in sgn x * of_int (round_half_even (\<bar>x\<bar> / u)) * u)"

definition js_add :: "number \<Rightarrow> number \<Rightarrow> number" where
  "js_add x y = binary64 (x + y)"

definition js_sub :: "number \<Rightarrow> number \<Rightarrow> number" where
  "js_sub x y = binary64 (x - y)"

definition js_mul :: "number \<Rightarrow> number \<Rightarrow> number" where
  "js_mul x y = binary64 (x * y)"

text \<open>Division by a non-zero number; the callers below test the divisor where it can be zero.\<close>

definition js_div :: "number \<Rightarrow> number \<Rightarrow> number" where
  "js_div x y = binary64 (x / y)"

text \<open>
  \<open>Math.round\<close> is exact: the nearest integer, a tie going towards plus infinity.
\<close>

definition Math_round :: "number \<Rightarrow> int" where
  "Math_round x = \<lfloor>x + 1 / 2\<rfloor>"

definition Math_min :: "number \<Rightarrow> number \<Rightarrow> number" where
  "Math_min x y = (if x \<le> y then x else y)"

definition Math_max :: "number \<Rightarrow> number \<Rightarrow> number" where
  "Math_max x y = (if x \<le> y then y else x)"

section \<open>Dates\<close>

text \<open>
  A \<open>Date\<close> is its time value, the number of milliseconds since the epoch in UTC (the
  limit of 8.64e15 ms on a time value is not modelled). An operation runs at one instant:
  each \<open>new Date()\<close> and \<open>Date.now()\<close> inside one call, the defaults \<open>now()\<close> of the
  store included, is its parameter \<open>now\<close>.
\<close>

type_synonym date = int

definition msPerDay :: int where
  "msPerDay = 24 * 60 * 60 * 1000"

text \<open>
  \<open>setDate\<close> and \<open>setHours\<close> work on local time. The time zone of the server is a
  parameter: the offset of local time from UTC at a UTC instant and at a local time value,
  the two readings \<open>LocalTZA(t, true)\<close> and \<open>LocalTZA(t, false)\<close> of ECMAScript. With
  daylight saving the offsets change over the year, and a local day has 23 or 25 hours
  where they do.
\<close>

record zone =
  LocalTZA_utc :: "date \<Rightarrow> int"
  LocalTZA_local :: "int \<Rightarrow> int"

definition LocalTime :: "zone \<Rightarrow> date \<Rightarrow> int" where
  "LocalTime tz t = t + LocalTZA_utc tz t"

definition UTC :: "zone \<Rightarrow> int \<Rightarrow> date" where
  "UTC tz t = t - LocalTZA_local tz t"

text \<open>\<open>d.setDate(d.getDate() + n)\<close>: the same local time of day, \<open>n\<close> local days on.\<close>

definition addDays :: "zone \<Rightarrow> date \<Rightarrow> int \<Rightarrow> date" where
  "addDays tz d n = UTC tz (LocalTime tz d + n * msPerDay)"

text \<open>\<open>d.setHours(0, 0, 0, 0)\<close>: local midnight of the local day.\<close>

definition startOfDay :: "zone \<Rightarrow> date \<Rightarrow> date" where
  "startOfDay tz d = (let t = LocalTime tz d in UTC tz (t - t mod msPerDay))"

section \<open>Spaced repetition (server/learning/srs.ts)\<close>

datatype error = InvalidInput | ValidationError | NotFound | StoreError | TypeError

record SRSState =
  interval :: int
  easeFactor :: int
  repetitions :: int
  nextReviewAt :: date

datatype wordStatus = StatusNew | StatusLearning | StatusMastered

definition calculateNextReview :: "zone \<Rightarrow> date \<Rightarrow> SRSState \<Rightarrow> number \<Rightarrow> error + SRSState" where
  "calculateNextReview tz now state quality =
     (if quality < 0 \<or> quality > 5 then Inl InvalidInput
      else
        let newEaseFactor0 =
              js_add (of_int (easeFactor state))
                (js_mul
                  (js_sub (binary64 (1 / 10))
                    (js_mul (js_sub 5 quality)
                      (js_add (binary64 (8 / 100))
                        (js_mul (js_sub 5 quality) (binary64 (2 / 100))))))
                  1000);
            newEaseFactor = (if newEaseFactor0 < 1300 then 1300 else newEaseFactor0);
            newRepetitions = (if quality < 3 then 0 else repetitions state + 1);
            newInterval =
              (if quality < 3 then 1
               else if newRepetitions = 1 then 1
               else if newRepetitions = 2 then 3
               else Math_round (js_mul (of_int (interval state)) (js_div newEaseFactor 1000)))
        in Inr \<lparr>interval = newInterval,
                easeFactor = Math_round newEaseFactor,
                repetitions = newRepetitions,
                nextReviewAt = addDays tz now newInterval\<rparr>)"

definition calculateMasteryPercentage :: "SRSState \<Rightarrow> int" where
  "calculateMasteryPercentage state =
     (let repetitionScore = js_mul (Math_min (js_div (of_int (repetitions state)) 10) 1) 50;
          easeFactorScore =
            js_mul (Math_min (js_div (js_sub (of_int (easeFactor state)) 1300) 1700) 1) 50
      in Math_round (js_add repetitionScore easeFactorScore))"

definition getWordStatus :: "SRSState \<Rightarrow> wordStatus" where
  "getWordStatus state =
     (if repetitions state = 0 then StatusNew
      else if repetitions state < 5 \<or> easeFactor state < 2000 then StatusLearning
      else StatusMastered)"

section \<open>The store (drizzle/schema.ts)\<close>

text \<open>
  A table is the list of its rows, in insertion order. An \<open>INT\<close> column holds an integer
  (its 32-bit range is not modelled), a nullable column an option, a \<open>timestamp\<close> a date
  at full precision. The column defaults of the schema are written out where an insert
  leaves a column unset. The tables \<open>users\<close>, \<open>userStats\<close> and \<open>mistakes\<close> play no
  part below and are left out.
\<close>

datatype difficulty = Easy | Intermediate | Hard

record phrase =
  ph_id :: string
  ph_german :: string
  ph_english :: string
  ph_pronunciation :: string
  ph_difficulty :: difficulty
  ph_category :: string

record userProgressRow =
  up_id :: string
  up_userId :: string
  up_phraseId :: string
  up_interval :: int
  up_easeFactor :: int
  up_repetitions :: int
  up_correctCount :: int
  up_incorrectCount :: int
  up_lastReviewedAt :: "date option"
  up_nextReviewAt :: date
  up_status :: wordStatus
  up_createdAt :: "date option"
  up_updatedAt :: "date option"

datatype taskType = New | Review_1 | Review_3 | Review_10 | Review_21 | Review_50 | Exam

datatype taskStatus = Pending | Completed | Skipped

record dailyTask =
  dt_id :: string
  dt_userId :: string
  dt_phraseId :: string
  dt_scheduledDate :: date
  dt_taskType :: taskType
  dt_daysFromLearning :: int
  dt_status :: taskStatus
  dt_completedAt :: "date option"
  dt_isCorrect :: "int option"
  dt_timeSpentSeconds :: "int option"
  dt_createdAt :: "date option"
  dt_updatedAt :: "date option"

record studySession =
  ss_id :: string
  ss_userId :: string
  ss_sessionDate :: date
  ss_startTime :: date
  ss_endTime :: "date option"
  ss_phrasesStudied :: int
  ss_correctAnswers :: int
  ss_incorrectAnswers :: int
  ss_accuracy :: int
  ss_streakContinued :: int
  ss_createdAt :: "date option"

datatype learningPace = Slow | Normal | Fast

record learningAnalyticsRow =
  la_id :: string
  la_userId :: string
  la_avgPhrasesPerDay :: int
  la_bestStudyTime :: "string option"
  la_studyStreak :: int
  la_longestStudyStreak :: int
  la_optimalDailyLoad :: int
  la_learningPace :: learningPace
  la_avgRetention :: int
  la_weakCategories :: "string option"
  la_strongCategories :: "string option"
  la_lastAnalyzedAt :: "date option"
  la_createdAt :: "date option"
  la_updatedAt :: "date option"

record database =
  phrases :: "phrase list"
  userProgress :: "userProgressRow list"
  dailyTasks :: "dailyTask list"
  studySessions :: "studySession list"
  learningAnalytics :: "learningAnalyticsRow list"

text \<open>
  Every table has its \<open>id\<close> as primary key: an insert of an id that is already there
  is refused with an error.
\<close>

definition insertKeyed :: "('r \<Rightarrow> string) \<Rightarrow> 'r \<Rightarrow> 'r list \<Rightarrow> error + 'r list" where
  "insertKeyed key row table =
     (if key row \<in> set (map key table) then Inl StoreError else Inr (table @ [row]))"

text \<open>
  \<open>db.insert(table).values(row)\<close>. The \<open>id\<close> of every table is a \<open>varchar(64)\<close>: an
  insert of a longer id is refused as well, as MySQL does in its default strict mode (a
  server that is set to truncate stores the first 64 characters instead). The scheduler
  builds its ids from a user id and a phrase id, themselves \<open>varchar(64)\<close> columns whose
  values are part of the id, and the user ids that \<open>generateUserId\<close> of
  server/authService.ts issues have 64 characters.
\<close>

definition insertRow :: "('r \<Rightarrow> string) \<Rightarrow> 'r \<Rightarrow> 'r list \<Rightarrow> error + 'r list" where
  "insertRow key row table =
     (if 64 < length (key row) then Inl StoreError else insertKeyed key row table)"

text \<open>\<open>.orderBy(asc(column))\<close> and \<open>.orderBy(desc(column))\<close>; rows with equal keys keep
  an order the database is free to choose, here the one of a stable sort.\<close>

definition orderByAsc :: "('r \<Rightarrow> int) \<Rightarrow> 'r list \<Rightarrow> 'r list" where
  "orderByAsc column rows = sort_key column rows"

definition orderByDesc :: "('r \<Rightarrow> int) \<Rightarrow> 'r list \<Rightarrow> 'r list" where
  "orderByDesc column rows = rev (sort_key column rows)"

text \<open>\<open>String(n)\<close> for an integer, as a template literal renders \<open>Date.now()\<close>.\<close>

fun showNat :: "nat \<Rightarrow> string" where
  "showNat n =
     (if n < 10 then [''0123456789'' ! n]
      else showNat (n div 10) @ [''0123456789'' ! (n mod 10)])"

declare showNat.simps [simp del]

definition showInt :: "int \<Rightarrow> string" where
  "showInt i = (if i < 0 then ''-'' @ showNat (nat (- i)) else showNat (nat i))"

section \<open>The store helpers (server/db.ts)\<close>

text \<open>
  \<open>getDb\<close> is an asynchronous function: a call returns a promise, of the client of the
  store or of \<open>null\<close> when no store is configured. The record-answer path and the task
  scheduler write \<open>const db = await getDb(); if (!db) return ...\<close>: their \<open>db\<close> is the
  client or \<open>null\<close>, a \<open>database option\<close>. A value that \<open>db\<close> can hold:
\<close>

datatype dbValue = Promise "database option" | Client database

definition getDb :: "database option \<Rightarrow> dbValue" where
  "getDb store = Promise store"

text \<open>\<open>from(userProgress).innerJoin(phrases, eq(userProgress.phraseId, phrases.id))\<close>\<close>

definition progressJoinPhrases :: "database \<Rightarrow> (userProgressRow \<times> phrase) list" where
  "progressJoinPhrases db =
     concat (map (\<lambda>p. map (\<lambda>ph. (p, ph)) (filter (\<lambda>ph. up_phraseId p = ph_id ph) (phrases db)))
       (userProgress db))"

definition getPhrasesForReview ::
  "database option \<Rightarrow> date \<Rightarrow> string \<Rightarrow> nat \<Rightarrow> (userProgressRow \<times> phrase) list" where
  "getPhrasesForReview dbo now userId limit =
     (case dbo of
        None \<Rightarrow> []
      | Some db \<Rightarrow>
          take limit
            (orderByAsc (\<lambda>(p, ph). up_nextReviewAt p)
              (filter (\<lambda>(p, ph). up_userId p = userId \<and> up_nextReviewAt p \<le> now)
                (progressJoinPhrases db))))"

section \<open>The review router (server/routers/learning.ts)\<close>

text \<open>
  The handlers of this router write \<open>const db = getDb()\<close>, without \<open>await\<close>: their \<open>db\<close>
  is the promise. A promise has no method \<open>select\<close>, so the first query of a handler
  throws a \<open>TypeError\<close>, before anything is read or written. Each handler is given in two
  parts: what it runs on a client, and the handler as it is written.
\<close>

record reviewWord =
  rw_id :: string
  rw_phraseId :: string
  rw_german :: string
  rw_english :: string
  rw_pronunciation :: string
  rw_difficulty :: difficulty
  rw_interval :: int
  rw_easeFactor :: int
  rw_repetitions :: int
  rw_nextReviewAt :: date

definition reviewWordOf :: "userProgressRow \<Rightarrow> phrase \<Rightarrow> reviewWord" where
  "reviewWordOf p ph =
     \<lparr>rw_id = up_id p, rw_phraseId = up_phraseId p, rw_german = ph_german ph,
      rw_english = ph_english ph, rw_pronunciation = ph_pronunciation ph,
      rw_difficulty = ph_difficulty ph, rw_interval = up_interval p,
      rw_easeFactor = up_easeFactor p, rw_repetitions = up_repetitions p,
      rw_nextReviewAt = up_nextReviewAt p\<rparr>"

text \<open>The query of \<open>getWordsForReview\<close>, on a client.\<close>

definition getWordsForReview_query :: "database \<Rightarrow> date \<Rightarrow> string \<Rightarrow> reviewWord list" where
  "getWordsForReview_query db now userId =
     take 20
       (map (\<lambda>(p, ph). reviewWordOf p ph)
         (orderByDesc (\<lambda>(p, ph). up_nextReviewAt p)
           (filter (\<lambda>(p, ph). up_userId p = userId \<and> up_nextReviewAt p \<le> now)
             (progressJoinPhrases db))))"

definition getWordsForReview :: "database option \<Rightarrow> date \<Rightarrow> string \<Rightarrow> error + reviewWord list" where
  "getWordsForReview store now userId =
     (case getDb store of
        Promise p \<Rightarrow> Inl TypeError
      | Client db \<Rightarrow> Inr (getWordsForReview_query db now userId))"

record reviewResult =
  newState :: SRSState
  masteryPercentage :: int
  status :: wordStatus

text \<open>The body of the \<open>submitReview\<close> mutation, on a client: the store after it, and what
  it returns or throws.\<close>

definition submitReview_body ::
  "zone \<Rightarrow> database \<Rightarrow> date \<Rightarrow> string \<Rightarrow> string \<Rightarrow> number \<Rightarrow> database \<times> (error + reviewResult)" where
  "submitReview_body tz db now userId userProgressId quality =
     (case filter (\<lambda>r. up_id r = userProgressId \<and> up_userId r = userId) (userProgress db) of
        [] \<Rightarrow> (db, Inl NotFound)
      | progressRecord # _ \<Rightarrow>
          (case calculateNextReview tz now
                  \<lparr>interval = up_interval progressRecord,
                   easeFactor = up_easeFactor progressRecord,
                   repetitions = up_repetitions progressRecord,
                   nextReviewAt = up_nextReviewAt progressRecord\<rparr> quality of
             Inl e \<Rightarrow> (db, Inl e)
           | Inr state' \<Rightarrow>
               (let newStatus = getWordStatus state'
                in (db\<lparr>userProgress :=
                       map (\<lambda>r. if up_id r = userProgressId
                                 then r\<lparr>up_interval := interval state',
                                        up_easeFactor := easeFactor state',
                                        up_repetitions := repetitions state',
                                        up_nextReviewAt := nextReviewAt state',
                                        up_status := newStatus,
                                        up_lastReviewedAt := Some now,
                                        up_correctCount :=
                                          (if quality \<ge> 3 then up_correctCount progressRecord + 1
                                           else up_correctCount progressRecord),
                                        up_incorrectCount :=
                                          (if quality < 3 then up_incorrectCount progressRecord + 1
                                           else up_incorrectCount progressRecord),
                                        up_updatedAt := Some now\<rparr>
                                 else r)
                         (userProgress db)\<rparr>,
                    Inr \<lparr>newState = state',
                         masteryPercentage = calculateMasteryPercentage state',
                         status = newStatus\<rparr>))))"

text \<open>The mutation as it is written: the store behind \<open>getDb\<close> after it, and what it
  returns or throws.\<close>

definition submitReview_mutation ::
  "zone \<Rightarrow> database option \<Rightarrow> date \<Rightarrow> string \<Rightarrow> string \<Rightarrow> number \<Rightarrow>
     database option \<times> (error + reviewResult)" where
  "submitReview_mutation tz store now userId userProgressId quality =
     (case getDb store of
        Promise p \<Rightarrow> (store, Inl TypeError)
      | Client db \<Rightarrow>
          (case submitReview_body tz db now userId userProgressId quality of
             (db', result) \<Rightarrow> (Some db', result)))"

text \<open>The procedure: its input schema \<open>z.number().min(0).max(5)\<close> is checked first.\<close>

definition submitReview ::
  "zone \<Rightarrow> database option \<Rightarrow> date \<Rightarrow> string \<Rightarrow> string \<Rightarrow> number \<Rightarrow>
     database option \<times> (error + reviewResult)" where
  "submitReview tz store now userId userProgressId quality =
     (if quality < 0 \<or> 5 < quality then (store, Inl ValidationError)
      else submitReview_mutation tz store now userId userProgressId quality)"

section \<open>The simplified record-answer path (server/routers.ts)\<close>

text \<open>
  \<open>rnd\<close> is the random suffix \<open>Math.random().toString(36).substr(2, 9)\<close> of a new id,
  nine characters at most. The id, \<open>progress_\<close>, the clock and the suffix, has 36
  characters at most for a time value of a \<open>Date\<close>, inside the 64 of its column
  (\<open>recordAnswer_id_fits\<close>), so the insert is \<open>insertKeyed\<close>. The result is the store
  and the \<open>success\<close> flag; any error of the store is caught and reported as
  \<open>success: false\<close>.
\<close>

definition recordAnswer ::
  "database option \<Rightarrow> date \<Rightarrow> string \<Rightarrow> string \<Rightarrow> string \<Rightarrow> bool \<Rightarrow> database option \<times> bool" where
  "recordAnswer dbo now rnd userId phraseId isCorrect =
     (case dbo of
        None \<Rightarrow> (None, False)
      | Some db \<Rightarrow>
          (case take 1 (filter (\<lambda>r. up_userId r = userId \<and> up_phraseId r = phraseId)
                         (userProgress db)) of
             p # _ \<Rightarrow>
               (let repetitions' = (if isCorrect then up_repetitions p + 1 else 0);
                    interval' =
                      (if isCorrect then
                         (if repetitions' = 1 then 1
                          else if repetitions' = 2 then 3
                          else Math_round (js_mul (of_int (up_interval p))
                                 (js_div (of_int (up_easeFactor p)) 1000)))
                       else 1);
                    easeFactor' =
                      (if isCorrect then max 1300 (up_easeFactor p + 100 * (5 - 3))
                       else max 1300 (up_easeFactor p + 100 * (2 - 3)));
                    nextReviewAt' = now + interval' * 24 * 60 * 60 * 1000
                in (Some (db\<lparr>userProgress :=
                            map (\<lambda>r. if up_id r = up_id p
                                      then r\<lparr>up_interval := interval',
                                             up_easeFactor := easeFactor',
                                             up_repetitions := repetitions',
                                             up_correctCount :=
                                               (if isCorrect then up_correctCount p + 1
                                                else up_correctCount p),
                                             up_incorrectCount :=
                                               (if \<not> isCorrect then up_incorrectCount p + 1
                                                else up_incorrectCount p),
                                             up_lastReviewedAt := Some now,
                                             up_nextReviewAt := nextReviewAt',
                                             up_updatedAt := Some now\<rparr>
                                      else r)
                              (userProgress db)\<rparr>), True))
           | [] \<Rightarrow>
               (let repetitions' = (if isCorrect then 1 else 0);
                    interval' = (if isCorrect then 1 else 1);
                    easeFactor' = (if isCorrect then 2500 else 1300);
                    nextReviewAt' = now + interval' * 24 * 60 * 60 * 1000
                in case insertKeyed up_id
                          \<lparr>up_id = ''progress_'' @ showInt now @ ''_'' @ rnd,
                           up_userId = userId, up_phraseId = phraseId,
                           up_interval = interval', up_easeFactor = easeFactor',
                           up_repetitions = repetitions',
                           up_correctCount = (if isCorrect then 1 else 0),
                           up_incorrectCount = (if \<not> isCorrect then 1 else 0),
                           up_lastReviewedAt = Some now, up_nextReviewAt = nextReviewAt',
                           up_status = (if isCorrect then StatusLearning else StatusNew),
                           up_createdAt = Some now, up_updatedAt = Some now\<rparr>
                          (userProgress db) of
                     Inl e \<Rightarrow> (Some db, False)
                   | Inr table \<Rightarrow> (Some (db\<lparr>userProgress := table\<rparr>), True))))"

section \<open>The task scheduler (server/taskScheduler.ts)\<close>

text \<open>
  Every function of the scheduler runs inside \<open>try\<close>/\<open>catch\<close>: an error of the store ends
  the function where it occurs, and the writes made before it stay.
\<close>

fun taskTypeName :: "taskType \<Rightarrow> string" where
  "taskTypeName New = ''new''"
| "taskTypeName Review_1 = ''review_1''"
| "taskTypeName Review_3 = ''review_3''"
| "taskTypeName Review_10 = ''review_10''"
| "taskTypeName Review_21 = ''review_21''"
| "taskTypeName Review_50 = ''review_50''"
| "taskTypeName Exam = ''exam''"

definition reviewSchedules :: "(int \<times> taskType) list" where
  "reviewSchedules =
     [(1, Review_1), (3, Review_3), (10, Review_10), (21, Review_21), (50, Review_50)]"

text \<open>The loop of \<open>scheduleNextReviews\<close> over the schedules that are left.\<close>

fun scheduleLoop ::
  "zone \<Rightarrow> date \<Rightarrow> string \<Rightarrow> string \<Rightarrow> (int \<times> taskType) list \<Rightarrow> dailyTask list \<Rightarrow>
     dailyTask list" where
  "scheduleLoop tz now userId phraseId [] tasks = tasks"
| "scheduleLoop tz now userId phraseId ((days, type) # rest) tasks =
     (let scheduledDate = startOfDay tz (addDays tz now days);
          existing = take 1 (filter (\<lambda>t. dt_userId t = userId \<and> dt_phraseId t = phraseId \<and>
                                        dt_taskType t = type) tasks)
      in if length existing = 0 then
           (case insertRow dt_id
                   \<lparr>dt_id = ''task_'' @ userId @ ''_'' @ phraseId @ ''_'' @ taskTypeName type
                            @ ''_'' @ showInt now,
                    dt_userId = userId, dt_phraseId = phraseId,
                    dt_scheduledDate = scheduledDate, dt_taskType = type,
                    dt_daysFromLearning = days, dt_status = Pending,
                    dt_completedAt = None, dt_isCorrect = None, dt_timeSpentSeconds = None,
                    dt_createdAt = Some now, dt_updatedAt = Some now\<rparr> tasks of
              Inl e \<Rightarrow> tasks
            | Inr tasks' \<Rightarrow> scheduleLoop tz now userId phraseId rest tasks')
         else scheduleLoop tz now userId phraseId rest tasks)"

definition scheduleNextReviews ::
  "zone \<Rightarrow> database option \<Rightarrow> date \<Rightarrow> string \<Rightarrow> string \<Rightarrow> database option" where
  "scheduleNextReviews tz dbo now userId phraseId =
     (case dbo of
        None \<Rightarrow> None
      | Some db \<Rightarrow>
          Some (db\<lparr>dailyTasks := scheduleLoop tz now userId phraseId reviewSchedules (dailyTasks db)\<rparr>))"

definition completeDailyTask ::
  "zone \<Rightarrow> database option \<Rightarrow> date \<Rightarrow> string \<Rightarrow> string \<Rightarrow> string \<Rightarrow> bool \<Rightarrow> int \<Rightarrow>
     database option" where
  "completeDailyTask tz dbo now userId taskId phraseId isCorrect timeSpentSeconds =
     (case dbo of
        None \<Rightarrow> None
      | Some db \<Rightarrow>
          (let db1 = db\<lparr>dailyTasks :=
                       map (\<lambda>t. if dt_id t = taskId
                                 then t\<lparr>dt_status := Completed,
                                        dt_completedAt := Some now,
                                        dt_isCorrect := Some (if isCorrect then 1 else 0),
                                        dt_timeSpentSeconds := Some timeSpentSeconds,
                                        dt_updatedAt := Some now\<rparr>
                                 else t)
                         (dailyTasks db)\<rparr>;
               progress = take 1 (filter (\<lambda>r. up_userId r = userId \<and> up_phraseId r = phraseId)
                                   (userProgress db1))
           in case progress of
                [] \<Rightarrow>
                  (case insertRow up_id
                          \<lparr>up_id = ''progress_'' @ userId @ ''_'' @ phraseId @ ''_'' @ showInt now,
                           up_userId = userId, up_phraseId = phraseId,
                           up_interval = 1, up_easeFactor = 2500, up_repetitions = 0,
                           up_correctCount = (if isCorrect then 1 else 0),
                           up_incorrectCount = (if isCorrect then 0 else 1),
                           up_lastReviewedAt = None,
                           up_nextReviewAt = now + 1 * 24 * 60 * 60 * 1000,
                           up_status = StatusLearning,
                           up_createdAt = Some now, up_updatedAt = Some now\<rparr>
                          (userProgress db1) of
                     Inl e \<Rightarrow> Some db1
                   | Inr table \<Rightarrow>
                       (if isCorrect
                        then scheduleNextReviews tz (Some (db1\<lparr>userProgress := table\<rparr>)) now userId phraseId
                        else Some (db1\<lparr>userProgress := table\<rparr>)))
              | p # _ \<Rightarrow>
                  (let db2 = db1\<lparr>userProgress :=
                               map (\<lambda>r. if up_id r = up_id p
                                         then r\<lparr>up_correctCount :=
                                                  up_correctCount p + (if isCorrect then 1 else 0),
                                                up_incorrectCount :=
                                                  up_incorrectCount p + (if isCorrect then 0 else 1),
                                                up_repetitions := up_repetitions p + 1,
                                                up_lastReviewedAt := Some now,
                                                up_updatedAt := Some now\<rparr>
                                         else r)
                                 (userProgress db1)\<rparr>
                   in if isCorrect then scheduleNextReviews tz (Some db2) now userId phraseId
                      else Some db2)))"

text \<open>
  \<open>updateLearningAnalytics\<close>. With sessions in the window whose phrases sum to zero the
  accuracy \<open>totalCorrect / totalPhrases * 100\<close> is NaN or an infinity, which is no value of
  an \<open>INT\<close> column: the write is refused and the store stays as it is.
\<close>

definition updateLearningAnalytics ::
  "zone \<Rightarrow> database option \<Rightarrow> date \<Rightarrow> string \<Rightarrow> database option" where
  "updateLearningAnalytics tz dbo now userId =
     (case dbo of
        None \<Rightarrow> None
      | Some db \<Rightarrow>
          (let thirtyDaysAgo = addDays tz now (- 30);
               sessions = filter (\<lambda>s. ss_userId s = userId \<and> thirtyDaysAgo \<le> ss_sessionDate s)
                            (studySessions db)
           in if length sessions = 0 then Some db
              else
                let totalPhrases = foldl (\<lambda>sum s. sum + ss_phrasesStudied s) 0 sessions;
                    totalCorrect = foldl (\<lambda>sum s. sum + ss_correctAnswers s) 0 sessions
                in if totalPhrases = 0 then Some db
                   else
                     let avgAccuracy =
                           (if length sessions > 0
                            then Math_round (js_mul (js_div (of_int totalCorrect) (of_int totalPhrases)) 100)
                            else 0);
                         avgPhrasesPerDay = Math_round (js_div (of_int totalPhrases) 30);
                         learningPace0 = Normal;
                         learningPace1 = (if avgPhrasesPerDay < 15 then Slow else learningPace0);
                         learningPace2 = (if avgPhrasesPerDay > 30 then Fast else learningPace1);
                         existing = take 1 (filter (\<lambda>a. la_userId a = userId) (learningAnalytics db))
                     in if length existing > 0 then
                          Some (db\<lparr>learningAnalytics :=
                                  map (\<lambda>a. if la_userId a = userId
                                            then a\<lparr>la_avgPhrasesPerDay := avgPhrasesPerDay,
                                                   la_avgRetention := avgAccuracy,
                                                   la_learningPace := learningPace2,
                                                   la_lastAnalyzedAt := Some now,
                                                   la_updatedAt := Some now\<rparr>
                                            else a)
                                    (learningAnalytics db)\<rparr>)
                        else
                          (case insertRow la_id
                                  \<lparr>la_id = ''analytics_'' @ userId @ ''_'' @ showInt now,
                                   la_userId = userId,
                                   la_avgPhrasesPerDay = avgPhrasesPerDay,
                                   la_bestStudyTime = None,
                                   la_studyStreak = 0, la_longestStudyStreak = 0,
                                   la_optimalDailyLoad = avgPhrasesPerDay,
                                   la_learningPace = learningPace2,
                                   la_avgRetention = avgAccuracy,
                                   la_weakCategories = None, la_strongCategories = None,
                                   la_lastAnalyzedAt = Some now,
                                   la_createdAt = Some now, la_updatedAt = Some now\<rparr>
                                  (learningAnalytics db) of
                             Inl e \<Rightarrow> Some db
                           | Inr table \<Rightarrow> Some (db\<lparr>learningAnalytics := table\<rparr>))))"

section \<open>The formulas of the specification\<close>

text \<open>
  These follow the words of the specification, not the code, and are what the code is
  compared with. Step 1 of the scheduling function: the ease delta
  \<open>(0.1 - (5 - quality) * (0.08 + (5 - quality) * 0.02)) * 1000\<close>, read as an expression
  of doubles.
\<close>

definition spec_easeDelta :: "number \<Rightarrow> number" where
  "spec_easeDelta quality =
     js_mul
       (js_sub (binary64 (1 / 10))
         (js_mul (js_sub 5 quality)
           (js_add (binary64 (8 / 100)) (js_mul (js_sub 5 quality) (binary64 (2 / 100))))))
       1000"

text \<open>The same delta in exact arithmetic: 100, 0, -140, -320, -540, -800 for the
  qualities 5 down to 0.\<close>

definition spec_easeDelta_exact :: "rat \<Rightarrow> rat" where
  "spec_easeDelta_exact quality =
     (1 / 10 - (5 - quality) * (8 / 100 + (5 - quality) * (2 / 100))) * 1000"

text \<open>Steps 1 and 2: the delta is added and the sum floored at 1300.\<close>

definition spec_newEaseFactor :: "int \<Rightarrow> number \<Rightarrow> number" where
  "spec_newEaseFactor ef quality = Math_max (js_add (of_int ef) (spec_easeDelta quality)) 1300"

text \<open>Step 3, from the third success on: \<open>round(oldInterval * easeFactor / 1000)\<close>, in exact
  arithmetic.\<close>

definition spec_interval :: "int \<Rightarrow> int \<Rightarrow> int" where
  "spec_interval oldInterval newEaseFactor =
     Math_round (of_int oldInterval * of_int newEaseFactor / 1000)"

text \<open>\<open>masteryPercent\<close> before it is rounded,
  \<open>min(repetitions/10,1)*50 + min(max(easeFactor-1300,0)/1700,1)*50\<close>, in exact arithmetic,
  and \<open>masteryPercent\<close> itself.\<close>

definition spec_masteryScore :: "SRSState \<Rightarrow> rat" where
  "spec_masteryScore state =
     min (of_int (repetitions state) / 10) 1 * 50 +
     min (max (of_int (easeFactor state) - 1300) 0 / 1700) 1 * 50"

definition spec_masteryPercent :: "SRSState \<Rightarrow> int" where
  "spec_masteryPercent state = Math_round (spec_masteryScore state)"

section \<open>Notions used in the statements\<close>

text \<open>The number of tasks of one type that a user has for a phrase.\<close>

definition taskCount :: "dailyTask list \<Rightarrow> string \<Rightarrow> string \<Rightarrow> taskType \<Rightarrow> nat" where
  "taskCount tasks userId phraseId type =
     length (filter (\<lambda>t. dt_userId t = userId \<and> dt_phraseId t = phraseId \<and> dt_taskType t = type) tasks)"

text \<open>The five checkpoint types, in the order of \<open>reviewSchedules\<close>.\<close>

definition checkpointTypes :: "taskType list" where
  "checkpointTypes = [Review_1, Review_3, Review_10, Review_21, Review_50]"

text \<open>The ids that \<open>scheduleNextReviews\<close> and \<open>completeDailyTask\<close> build for a new row.\<close>

definition taskIdOf :: "string \<Rightarrow> string \<Rightarrow> taskType \<Rightarrow> date \<Rightarrow> string" where
  "taskIdOf userId phraseId type now =
     ''task_'' @ userId @ ''_'' @ phraseId @ ''_'' @ taskTypeName type @ ''_'' @ showInt now"

definition progressIdOf :: "string \<Rightarrow> string \<Rightarrow> date \<Rightarrow> string" where
  "progressIdOf userId phraseId now = ''progress_'' @ userId @ ''_'' @ phraseId @ ''_'' @ showInt now"

text \<open>The two row updates of \<open>completeDailyTask\<close>, as functions on a row.\<close>

definition markCompleted :: "date \<Rightarrow> string \<Rightarrow> bool \<Rightarrow> int \<Rightarrow> dailyTask \<Rightarrow> dailyTask" where
  "markCompleted now taskId isCorrect secs t =
     (if dt_id t = taskId
      then t\<lparr>dt_status := Completed, dt_completedAt := Some now,
             dt_isCorrect := Some (if isCorrect then 1 else 0),
             dt_timeSpentSeconds := Some secs, dt_updatedAt := Some now\<rparr>
      else t)"

definition bumpCounters :: "date \<Rightarrow> bool \<Rightarrow> userProgressRow \<Rightarrow> userProgressRow \<Rightarrow> userProgressRow" where
  "bumpCounters now isCorrect p r =
     (if up_id r = up_id p
      then r\<lparr>up_correctCount := up_correctCount p + (if isCorrect then 1 else 0),
             up_incorrectCount := up_incorrectCount p + (if isCorrect then 0 else 1),
             up_repetitions := up_repetitions p + 1,
             up_lastReviewedAt := Some now,
             up_updatedAt := Some now\<rparr>
      else r)"

text \<open>A run of calls \<open>completeDailyTask(userId, taskId, phraseId, true, seconds)\<close> for one
  phrase, each with its clock reading, task id and time spent.\<close>

fun completeRepeatedly ::
  "zone \<Rightarrow> database option \<Rightarrow> string \<Rightarrow> string \<Rightarrow> (date \<times> string \<times> int) list \<Rightarrow>
     database option" where
  "completeRepeatedly tz dbo userId phraseId [] = dbo"
| "completeRepeatedly tz dbo userId phraseId ((now, taskId, secs) # calls) =
     completeRepeatedly tz (completeDailyTask tz dbo now userId taskId phraseId True secs)
       userId phraseId calls"

text \<open>The sessions of a user in the trailing 30-day window, and the phrases studied in
  them.\<close>

definition sessionsInWindow :: "zone \<Rightarrow> database \<Rightarrow> date \<Rightarrow> string \<Rightarrow> studySession list" where
  "sessionsInWindow tz db now userId =
     filter (\<lambda>s. ss_userId s = userId \<and> addDays tz now (- 30) \<le> ss_sessionDate s)
       (studySessions db)"



section \<open>Example data\<close>

text \<open>A server on UTC, and one whose clocks go from one hour ahead of UTC to two hours
  ahead at the instant 10000000 (local time 13600000 becomes 17200000).\<close>

definition utc :: zone where
  "utc = \<lparr>LocalTZA_utc = (\<lambda>t. 0), LocalTZA_local = (\<lambda>t. 0)\<rparr>"

definition summerZone :: zone where
  "summerZone =
     \<lparr>LocalTZA_utc = (\<lambda>t. if t < 10000000 then 3600000 else 7200000),
      LocalTZA_local = (\<lambda>t. if t < 17200000 then 3600000 else 7200000)\<rparr>"

definition exampleState :: SRSState where
  "exampleState = \<lparr>interval = 6, easeFactor = 2500, repetitions = 5, nextReviewAt = 0\<rparr>"

definition exampleProgress :: userProgressRow where
  "exampleProgress =
     \<lparr>up_id = ''p1'', up_userId = ''u1'', up_phraseId = ''ph1'',
      up_interval = 3, up_easeFactor = 1350, up_repetitions = 2,
      up_correctCount = 2, up_incorrectCount = 0,
      up_lastReviewedAt = None, up_nextReviewAt = 100,
      up_status = StatusLearning, up_createdAt = None, up_updatedAt = None\<rparr>"

definition exampleDb :: database where
  "exampleDb =
     \<lparr>phrases = [], userProgress = [exampleProgress], dailyTasks = [],
      studySessions = [], learningAnalytics = []\<rparr>"

definition exampleProgress2 :: userProgressRow where
  "exampleProgress2 =
     \<lparr>up_id = ''p2'', up_userId = ''u1'', up_phraseId = ''ph2'',
      up_interval = 1, up_easeFactor = 2500, up_repetitions = 1,
      up_correctCount = 1, up_incorrectCount = 0,
      up_lastReviewedAt = None, up_nextReviewAt = 200,
      up_status = StatusLearning, up_createdAt = None, up_updatedAt = None\<rparr>"

definition examplePhrase1 :: phrase where
  "examplePhrase1 =
     \<lparr>ph_id = ''ph1'', ph_german = ''Hallo'', ph_english = ''Hello'',
      ph_pronunciation = ''halo'', ph_difficulty = Easy, ph_category = ''general''\<rparr>"

definition examplePhrase2 :: phrase where
  "examplePhrase2 =
     \<lparr>ph_id = ''ph2'', ph_german = ''Danke'', ph_english = ''Thanks'',
      ph_pronunciation = ''danke'', ph_difficulty = Easy, ph_category = ''general''\<rparr>"

text \<open>Two phrases and two progress rows of user \<open>u1\<close>, due at 100 and at 200.\<close>

definition reviewDb :: database where
  "reviewDb =
     \<lparr>phrases = [examplePhrase1, examplePhrase2],
      userProgress = [exampleProgress, exampleProgress2],
      dailyTasks = [], studySessions = [], learningAnalytics = []\<rparr>"

definition exampleTask :: dailyTask where
  "exampleTask =
     \<lparr>dt_id = ''t0'', dt_userId = ''u1'', dt_phraseId = ''ph1'',
      dt_scheduledDate = 0, dt_taskType = New, dt_daysFromLearning = 0,
      dt_status = Pending, dt_completedAt = None, dt_isCorrect = None,
      dt_timeSpentSeconds = None, dt_createdAt = None, dt_updatedAt = None\<rparr>"

text \<open>A store with one pending task and no progress yet, and the same store with the
  progress row of the example.\<close>

definition taskDb :: database where
  "taskDb =
     \<lparr>phrases = [examplePhrase1], userProgress = [], dailyTasks = [exampleTask],
      studySessions = [], learningAnalytics = []\<rparr>"

definition taskProgressDb :: database where
  "taskProgressDb = taskDb\<lparr>userProgress := [exampleProgress]\<rparr>"

definition exampleSession :: studySession where
  "exampleSession =
     \<lparr>ss_id = ''s1'', ss_userId = ''u1'', ss_sessionDate = 500, ss_startTime = 500,
      ss_endTime = Some 500, ss_phrasesStudied = 20, ss_correctAnswers = 15,
      ss_incorrectAnswers = 5, ss_accuracy = 75, ss_streakContinued = 1,
      ss_createdAt = Some 500\<rparr>"

text \<open>One session of 20 phrases in the window, and no analytics record yet.\<close>

definition sessionDb :: database where
  "sessionDb =
     \<lparr>phrases = [], userProgress = [], dailyTasks = [],
      studySessions = [exampleSession], learningAnalytics = []\<rparr>"

definition exampleAnalytics :: learningAnalyticsRow where
  "exampleAnalytics =
     \<lparr>la_id = ''a1'', la_userId = ''u1'', la_avgPhrasesPerDay = 7,
      la_bestStudyTime = None, la_studyStreak = 0, la_longestStudyStreak = 0,
      la_optimalDailyLoad = 20, la_learningPace = Normal, la_avgRetention = 50,
      la_weakCategories = None, la_strongCategories = None,
      la_lastAnalyzedAt = None, la_createdAt = None, la_updatedAt = None\<rparr>"

text \<open>The same session, with an analytics record of the user already there.\<close>

definition analyticsDb :: database where
  "analyticsDb = sessionDb\<lparr>learningAnalytics := [exampleAnalytics]\<rparr>"

text \<open>A user id as \<open>generateUserId\<close> issues them, 32 random bytes in hexadecimal; a
  store where this user has a pending task and a progress row for the phrase, and one
  where the user has a session.\<close>

definition registeredUser :: string where
  "registeredUser = ''9f86d081884c7d659a2feaa0c55ad015a3bf4f1b2b0b822cd15d6c15b0f00a08''"

definition registeredTaskDb :: database where
  "registeredTaskDb =
     \<lparr>phrases = [examplePhrase1],
      userProgress = [exampleProgress\<lparr>up_userId := registeredUser\<rparr>],
      dailyTasks = [exampleTask\<lparr>dt_userId := registeredUser\<rparr>],
      studySessions = [], learningAnalytics = []\<rparr>"

definition registeredSessionDb :: database where
  "registeredSessionDb =
     \<lparr>phrases = [], userProgress = [], dailyTasks = [],
      studySessions = [exampleSession\<lparr>ss_userId := registeredUser\<rparr>], learningAnalytics = []\<rparr>"

section \<open>Rounding to binary64 is monotone\<close>

lemma rhe_floor_le: "\<lfloor>x\<rfloor> \<le> round_half_even x"
  by (simp add: round_half_even_def Let_def)

lemma rhe_le_ceiling: "round_half_even x \<le> \<lceil>x\<rceil>"
  unfolding round_half_even_def Let_def
  by (auto simp: ceiling_altdef)

lemma rhe_of_int [simp]: "round_half_even (of_int n) = n"
  by (simp add: round_half_even_def Let_def)

lemma rhe_mono: 
  assumes "x \<le> y" shows "round_half_even x \<le> round_half_even y"
proof (cases "\<lfloor>x\<rfloor> = \<lfloor>y\<rfloor>")
  case True
  then show ?thesis using assms
    by (auto simp: round_half_even_def Let_def)
next
  case False
  have "\<lfloor>x\<rfloor> \<le> \<lfloor>y\<rfloor>" using assms by (rule floor_mono)
  with False have lt: "\<lfloor>x\<rfloor> < \<lfloor>y\<rfloor>" by simp
  have "round_half_even x \<le> \<lfloor>x\<rfloor> + 1"
    by (simp add: round_half_even_def Let_def)
  also have "\<dots> \<le> \<lfloor>y\<rfloor>" using lt by simp
  also have "\<dots> \<le> round_half_even y" by (rule rhe_floor_le)
  finally show ?thesis .
qed



lemma powi_nat: "0 \<le> k \<Longrightarrow> (2::rat) powi k = 2 ^ nat k"
  by (simp add: power_int_def)

lemma powi_neg: "(2::rat) powi (- k) = 1 / 2 powi k"
  by (rule power_int_minus_divide)

lemma exponent_bounds_ge1:
  assumes "1 \<le> (x::rat)"
  shows "2 powi exponent x \<le> x" and "x < 2 powi (exponent x + 1)"
proof -
  define n where "n = \<lfloor>x\<rfloor>"
  have n1: "1 \<le> n" using assms by (simp add: n_def)
  then have n0: "0 < n" by simp
  from bitlen_bounds[OF n0] have lo: "2 ^ nat (bitlen n - 1) \<le> n" and hi: "n < 2 ^ nat (bitlen n)"
    by simp_all
  have b1: "1 \<le> bitlen n" using n0 by (simp add: bitlen_def floorlog_def)
  have e: "exponent x = bitlen n - 1" using assms by (simp add: exponent_def n_def)
  have "(of_int (2 ^ nat (bitlen n - 1)) :: rat) \<le> of_int n"
    using lo by (simp only: of_int_le_iff)
  then have "(2::rat) ^ nat (bitlen n - 1) \<le> of_int n" by simp
  moreover have "of_int n \<le> x" by (simp add: n_def)
  ultimately have "(2::rat) ^ nat (bitlen n - 1) \<le> x" by linarith
  then show "2 powi exponent x \<le> x" using b1 by (simp add: e powi_nat)
  have "n + 1 \<le> 2 ^ nat (bitlen n)" using hi by simp
  then have "(of_int (n + 1) :: rat) \<le> of_int (2 ^ nat (bitlen n))"
    by (simp only: of_int_le_iff)
  then have "(of_int (n + 1) :: rat) \<le> 2 ^ nat (bitlen n)" by simp
  moreover have "x < of_int (n + 1)" unfolding n_def by linarith
  ultimately have "x < 2 ^ nat (bitlen n)" by linarith
  then show "x < 2 powi (exponent x + 1)" using b1 by (simp add: e powi_nat)
qed

lemma exponent_bounds_lt1:
  assumes "0 < (x::rat)" "x < 1"
  shows "2 powi exponent x \<le> x" and "x < 2 powi (exponent x + 1)"
proof -
  define n where "n = \<lceil>1 / x\<rceil>"
  have y1: "1 < 1 / x" using assms by simp
  then have n2: "2 \<le> n" unfolding n_def by linarith
  then have n0: "0 < n - 1" by simp
  define k where "k = bitlen (n - 1)"
  from bitlen_bounds[OF n0] have lo: "2 ^ nat (k - 1) \<le> n - 1" and hi: "n - 1 < 2 ^ nat k"
    by (simp_all add: k_def)
  have k1: "1 \<le> k" using n0 by (simp add: k_def bitlen_def floorlog_def)
  have e: "exponent x = - k" using assms by (simp add: exponent_def n_def k_def)
  have p: "(0::rat) < 2 ^ nat k" by simp
  have "n \<le> 2 ^ nat k" using hi by simp
  then have "(of_int n :: rat) \<le> of_int (2 ^ nat k)" by (simp only: of_int_le_iff)
  then have "(of_int n :: rat) \<le> 2 ^ nat k" by simp
  moreover have "1 / x \<le> of_int n" by (simp add: n_def)
  ultimately have "1 / x \<le> 2 ^ nat k" by linarith
  then have "1 \<le> 2 ^ nat k * x" using assms(1) by (simp add: field_simps)
  then have "1 / 2 ^ nat k \<le> x" using p by (simp add: field_simps)
  then show "2 powi exponent x \<le> x" using k1 by (simp add: e powi_neg powi_nat)
  have "(of_int (2 ^ nat (k - 1)) :: rat) \<le> of_int (n - 1)"
    using lo by (simp only: of_int_le_iff)
  then have "(2::rat) ^ nat (k - 1) \<le> of_int (n - 1)" by simp
  moreover have "(of_int (n - 1) :: rat) < 1 / x" unfolding n_def by linarith
  ultimately have "2 ^ nat (k - 1) < 1 / x" by linarith
  then have "2 ^ nat (k - 1) * x < 1" using assms(1) by (simp add: field_simps)
  then have lt: "x < 1 / 2 ^ nat (k - 1)" by (simp add: field_simps)
  have "- k + 1 = - (k - 1)" by simp
  then have "(2::rat) powi (- k + 1) = 1 / 2 powi (k - 1)" by (simp only: powi_neg)
  also have "\<dots> = 1 / 2 ^ nat (k - 1)" using k1 by (simp add: powi_nat)
  finally show "x < 2 powi (exponent x + 1)" using lt by (simp add: e)
qed

lemma exponent_bounds:
  assumes "0 < (x::rat)"
  shows "2 powi exponent x \<le> x" and "x < 2 powi (exponent x + 1)"
  using assms exponent_bounds_ge1[of x] exponent_bounds_lt1[of x]
  by (cases "1 \<le> x"; simp)+


lemma powi_pos [simp]: "(0::rat) < 2 powi k"
  by (simp add: power_int_def)

lemma powi_mono: "a \<le> b \<Longrightarrow> (2::rat) powi a \<le> 2 powi b"
  by (rule power_int_increasing) simp_all

lemma exponent_mono:
  assumes "0 < (x::rat)" "x \<le> y"
  shows "exponent x \<le> exponent y"
proof (rule ccontr)
  assume "\<not> exponent x \<le> exponent y"
  then have "exponent y + 1 \<le> exponent x" by simp
  then have "(2::rat) powi (exponent y + 1) \<le> 2 powi exponent x" by (rule powi_mono)
  moreover have "y < 2 powi (exponent y + 1)" using assms by (intro exponent_bounds) simp
  moreover have "2 powi exponent x \<le> x" using assms by (intro exponent_bounds)
  ultimately show False using assms by linarith
qed

lemma ulp_scale:
  "(2::rat) powi e = 2 powi (e - 52) * 2 ^ 52"
  "(2::rat) powi (e + 1) = 2 powi (e - 52) * 2 ^ 53"
proof -
  have "(2::rat) powi ((e - 52) + 52) = 2 powi (e - 52) * 2 powi 52"
    by (rule power_int_add) simp
  moreover have "(e - 52) + 52 = e" by simp
  ultimately show "(2::rat) powi e = 2 powi (e - 52) * 2 ^ 52"
    by (simp only: power_int_numeral)
  have "(2::rat) powi ((e - 52) + 53) = 2 powi (e - 52) * 2 powi 53"
    by (rule power_int_add) simp
  moreover have "(e - 52) + 53 = e + 1" by simp
  ultimately show "(2::rat) powi (e + 1) = 2 powi (e - 52) * 2 ^ 53"
    by (simp only: power_int_numeral)
qed

lemma scaled_bounds:
  assumes "0 < (x::rat)"
  shows "2 ^ 52 \<le> x / 2 powi (exponent x - 52)" and "x / 2 powi (exponent x - 52) < 2 ^ 53"
proof -
  define u :: rat where "u = 2 powi (exponent x - 52)"
  have u: "0 < u" by (simp add: u_def)
  from exponent_bounds[OF assms] have "u * 2 ^ 52 \<le> x" "x < u * 2 ^ 53"
    unfolding u_def by (simp_all only: ulp_scale[symmetric])
  then have "2 ^ 52 \<le> x / u" and "x / u < 2 ^ 53" using u by (simp_all add: field_simps)
  then show "2 ^ 52 \<le> x / 2 powi (exponent x - 52)" and "x / 2 powi (exponent x - 52) < 2 ^ 53"
    by (simp_all only: u_def)
qed

lemma binary64_pos:
  assumes "0 < (x::rat)"
  shows "binary64 x = of_int (round_half_even (x / 2 powi (exponent x - 52))) * 2 powi (exponent x - 52)"
  using assms by (simp add: binary64_def Let_def)

lemma binary64_pos_bounds:
  assumes "0 < (x::rat)"
  shows "2 powi exponent x \<le> binary64 x" and "binary64 x \<le> 2 powi (exponent x + 1)"
proof -
  define u :: rat where "u = 2 powi (exponent x - 52)"
  have u: "0 < u" by (simp add: u_def)
  have a: "2 powi exponent x = u * 2 ^ 52"
    unfolding u_def by (rule ulp_scale)
  have b: "2 powi (exponent x + 1) = u * 2 ^ 53"
    unfolding u_def by (rule ulp_scale)
  from scaled_bounds[OF assms] have lo: "2 ^ 52 \<le> x / u" and hi: "x / u < 2 ^ 53"
    by (simp_all add: u_def)
  have "round_half_even (of_int (2 ^ 52)) \<le> round_half_even (x / u)"
    using lo by (intro rhe_mono) simp
  then have "2 ^ 52 \<le> round_half_even (x / u)" by (simp only: rhe_of_int)
  then have "(of_int (2 ^ 52) :: rat) \<le> of_int (round_half_even (x / u))"
    by (simp only: of_int_le_iff)
  then have "u * 2 ^ 52 \<le> of_int (round_half_even (x / u)) * u" using u by (simp add: field_simps)
  then show "2 powi exponent x \<le> binary64 x"
    unfolding a binary64_pos[OF assms] u_def[symmetric] by (simp add: mult.commute)
  have "round_half_even (x / u) \<le> round_half_even (of_int (2 ^ 53))"
    using hi by (intro rhe_mono) simp
  then have "round_half_even (x / u) \<le> 2 ^ 53" by (simp only: rhe_of_int)
  then have "(of_int (round_half_even (x / u)) :: rat) \<le> of_int (2 ^ 53)"
    by (simp only: of_int_le_iff)
  then have "of_int (round_half_even (x / u)) * u \<le> u * 2 ^ 53" using u by (simp add: field_simps)
  then show "binary64 x \<le> 2 powi (exponent x + 1)"
    unfolding b binary64_pos[OF assms] u_def[symmetric] by (simp add: mult.commute)
qed

lemma binary64_mono_pos:
  assumes "0 < (x::rat)" "x \<le> y"
  shows "binary64 x \<le> binary64 y"
proof -
  have y: "0 < y" using assms by simp
  have le: "exponent x \<le> exponent y" using assms by (rule exponent_mono)
  show ?thesis
  proof (cases "exponent x = exponent y")
    case True
    define u :: rat where "u = 2 powi (exponent x - 52)"
    have u: "0 < u" by (simp add: u_def)
    have "x / u \<le> y / u" using assms u by (simp add: divide_right_mono)
    then have "round_half_even (x / u) \<le> round_half_even (y / u)" by (rule rhe_mono)
    then have "(of_int (round_half_even (x / u)) :: rat) \<le> of_int (round_half_even (y / u))"
      by (simp only: of_int_le_iff)
    then have "of_int (round_half_even (x / u)) * u \<le> of_int (round_half_even (y / u)) * u"
      using u by (simp add: mult_right_mono)
    then show ?thesis using True by (simp add: binary64_pos[OF assms(1)] binary64_pos[OF y] u_def)
  next
    case False
    with le have "exponent x + 1 \<le> exponent y" by simp
    then have "(2::rat) powi (exponent x + 1) \<le> 2 powi exponent y" by (rule powi_mono)
    with binary64_pos_bounds(2)[OF assms(1)] binary64_pos_bounds(1)[OF y]
    show ?thesis by linarith
  qed
qed

lemma binary64_zero [simp]: "binary64 0 = 0"
  by (simp add: binary64_def)

lemma binary64_minus: "binary64 (- x) = - binary64 x"
  by (simp add: binary64_def Let_def)

lemma binary64_pos_gt: "0 < x \<Longrightarrow> 0 < binary64 x"
  using binary64_pos_bounds(1)[of x] powi_pos[of "exponent x"] by linarith

lemma binary64_mono:
  assumes "x \<le> y"
  shows "binary64 x \<le> binary64 y"
proof -
  consider "0 < x" | "x = 0" | "x < 0" "0 \<le> y" | "x < 0" "y < 0" by linarith
  then show ?thesis
  proof cases
    case 1 then show ?thesis using assms by (rule binary64_mono_pos)
  next
    case 2
    then show ?thesis using assms binary64_pos_gt[of y] by (cases "y = 0") auto
  next
    case 3
    have "binary64 x < 0" using binary64_pos_gt[of "- x"] 3 by (simp add: binary64_minus)
    moreover have "0 \<le> binary64 y" using binary64_pos_gt[of y] 3 by (cases "y = 0") auto
    ultimately show ?thesis by simp
  next
    case 4
    have "binary64 (- y) \<le> binary64 (- x)" using 4 assms by (intro binary64_mono_pos) simp_all
    then show ?thesis by (simp add: binary64_minus)
  qed
qed

section \<open>The error of a rounding\<close>

lemma rhe_error: "\<bar>of_int (round_half_even x) - x\<bar> \<le> 1 / 2"
proof -
  have "of_int \<lfloor>x\<rfloor> \<le> x" "x < of_int \<lfloor>x\<rfloor> + 1" by linarith+
  then show ?thesis
    by (auto simp: round_half_even_def Let_def abs_le_iff)
qed

lemma binary64_error_pos:
  assumes "0 < (x::rat)"
  shows "\<bar>binary64 x - x\<bar> \<le> x / 2 ^ 53"
proof -
  define u :: rat where "u = 2 powi (exponent x - 52)"
  have u: "0 < u" by (simp add: u_def)
  have b: "binary64 x = of_int (round_half_even (x / u)) * u"
    using assms by (simp add: binary64_pos u_def)
  have "binary64 x - x = (of_int (round_half_even (x / u)) - x / u) * u"
    using u by (simp add: b field_simps)
  then have "\<bar>binary64 x - x\<bar> = \<bar>of_int (round_half_even (x / u)) - x / u\<bar> * u"
    using u by (simp add: abs_mult)
  also have "\<dots> \<le> (1 / 2) * u" using rhe_error[of "x / u"] u by (intro mult_right_mono) simp_all
  finally have e: "\<bar>binary64 x - x\<bar> \<le> u / 2" by simp
  have "u * 2 ^ 52 \<le> x" using exponent_bounds(1)[OF assms] ulp_scale(1)[of "exponent x"]
    by (simp add: u_def)
  then have "u \<le> x / 2 ^ 52" by (simp add: field_simps)
  then have "u / 2 \<le> x / 2 ^ 53" by simp
  with e show ?thesis by linarith
qed

lemma binary64_error: "\<bar>binary64 x - x\<bar> \<le> \<bar>x\<bar> / 2 ^ 53"
proof -
  consider "0 < x" | "x = 0" | "x < 0" by linarith
  then show ?thesis
  proof cases
    case 1 then show ?thesis using binary64_error_pos[of x] by simp
  next
    case 2 then show ?thesis by simp
  next
    case 3
    then have "\<bar>binary64 (- x) - (- x)\<bar> \<le> (- x) / 2 ^ 53" by (intro binary64_error_pos) simp
    then show ?thesis using 3 by (simp add: binary64_minus abs_minus_commute)
  qed
qed

lemma round_near_int:
  assumes "\<bar>y - of_int n\<bar> < 1 / 4"
  shows "Math_round (Math_max y 1300) = max 1300 n"
proof -
  from assms have lo: "of_int n - 1 / 4 < y" and hi: "y < of_int n + 1 / 4"
    by linarith+
  consider "n \<le> 1299" | "n = 1300" | "1301 \<le> n" by linarith
  then show ?thesis
  proof cases
    case 1
    then have "(of_int n :: rat) \<le> 1299" by (metis of_int_le_iff of_int_numeral)
    with hi have "y \<le> 1300" by linarith
    then have "Math_max y 1300 = 1300" by (simp add: Math_max_def)
    moreover have "\<lfloor>(1300::rat) + 1 / 2\<rfloor> = 1300" by (intro floor_unique) simp_all
    ultimately show ?thesis using 1 by (simp add: Math_round_def)
  next
    case 2
    then have m: "1300 \<le> Math_max y 1300" "Math_max y 1300 < 1300 + 1 / 4"
      using hi by (auto simp: Math_max_def)
    then have "\<lfloor>Math_max y 1300 + 1 / 2\<rfloor> = 1300" by (intro floor_unique) simp_all
    then show ?thesis using 2 by (simp add: Math_round_def)
  next
    case 3
    then have "(1301::rat) \<le> of_int n" by (metis of_int_le_iff of_int_numeral)
    with lo have "1300 < y" by linarith
    then have "Math_max y 1300 = y" by (simp add: Math_max_def)
    moreover have "\<lfloor>y + 1 / 2\<rfloor> = n" using lo hi by (intro floor_unique) simp_all
    ultimately show ?thesis using 3 by (simp add: Math_round_def)
  qed
qed

lemma exact_easeFactor_aux:
  assumes d: "\<bar>D - of_int d\<bar> \<le> 1 / 2 ^ 40" and ef: "\<bar>ef\<bar> \<le> 2 ^ 31" and dd: "\<bar>d\<bar> \<le> 1000"
  shows "Math_round (Math_max (js_add (of_int ef) D) 1300) = max 1300 (ef + d)"
proof -
  define x :: rat where "x = of_int ef + D"
  have efr: "\<bar>of_int ef :: rat\<bar> \<le> 2 ^ 31"
    using ef by (metis of_int_abs of_int_le_iff of_int_numeral of_int_power)
  have ddr: "\<bar>of_int d :: rat\<bar> \<le> 1000"
    using dd by (metis of_int_abs of_int_le_iff of_int_numeral)
  have "\<bar>x\<bar> \<le> \<bar>of_int ef\<bar> + \<bar>of_int d\<bar> + \<bar>D - of_int d\<bar>" unfolding x_def by linarith
  also have "\<dots> \<le> 2 ^ 31 + 1000 + 1 / 2 ^ 40" using efr ddr d by linarith
  also have "\<dots> \<le> 2 ^ 32" by simp
  finally have x: "\<bar>x\<bar> \<le> 2 ^ 32" .
  have "\<bar>binary64 x - x\<bar> \<le> \<bar>x\<bar> / 2 ^ 53" by (rule binary64_error)
  also have "\<dots> \<le> 2 ^ 32 / 2 ^ 53" using x by (simp add: divide_right_mono)
  finally have e: "\<bar>binary64 x - x\<bar> \<le> 1 / 2 ^ 21" by simp
  have "\<bar>binary64 x - of_int (ef + d)\<bar> \<le> \<bar>binary64 x - x\<bar> + \<bar>D - of_int d\<bar>"
    unfolding x_def by (simp; linarith?)
  also have "\<dots> \<le> 1 / 2 ^ 21 + 1 / 2 ^ 40" using e d by linarith
  also have "\<dots> < 1 / 4" by simp
  finally have "\<bar>binary64 x - of_int (ef + d)\<bar> < 1 / 4" .
  then show ?thesis unfolding js_add_def x_def[symmetric] by (rule round_near_int)
qed

lemma Math_round_near:
  fixes y v :: rat and k m :: int
  assumes m: "0 < m" and ev: "even m" and v: "v = of_int k / of_int m"
    and err: "\<bar>y - v\<bar> < 1 / of_int m"
  shows "\<bar>of_int (Math_round y) - v\<bar> \<le> 1 / 2"
    and "frac v \<noteq> 1 / 2 \<Longrightarrow> Math_round y = Math_round v"
proof -
  define h where "h = m div 2"
  have mh: "m = 2 * h" using ev by (auto simp: h_def)
  have mr: "(0::rat) < of_int m" using m by simp
  have vm: "v * of_int m = of_int k" using m by (simp add: v)
  have hm: "(1 / 2) * (of_int m :: rat) = of_int h" by (simp add: mh)
  have one: "(1 / of_int m) * (of_int m :: rat) = 1" using m by simp
  have lo: "v - 1 / of_int m < y" and hi: "y < v + 1 / of_int m" using err by linarith+
  have up: "of_int j \<le> v + 1 / 2" if "of_int j < v + 1 / of_int m + 1 / 2" for j :: int
  proof -
    from that have "of_int j * of_int m < (v + 1 / of_int m + 1 / 2) * (of_int m :: rat)"
      using mr by (simp only: mult_less_cancel_right_pos)
    also have "\<dots> = of_int (k + 1 + h)"
      by (simp only: distrib_right vm hm one of_int_add of_int_1)
    finally have "of_int (j * m) < (of_int (k + 1 + h) :: rat)" by simp
    then have "j * m < k + 1 + h" by (simp only: of_int_less_iff)
    then have "j * m \<le> k + h" by simp
    then have "(of_int (j * m) :: rat) \<le> of_int (k + h)" by (simp only: of_int_le_iff)
    also have "(of_int (k + h) :: rat) = (v + 1 / 2) * of_int m"
      by (simp only: distrib_right vm hm of_int_add)
    finally have "of_int j * of_int m \<le> (v + 1 / 2) * (of_int m :: rat)" by simp
    then show ?thesis using mr by (simp only: mult_le_cancel_right_pos)
  qed
  have down: "v + 1 / 2 \<le> of_int j" if "v - 1 / of_int m + 1 / 2 < of_int j" for j :: int
  proof -
    from that have "(v - 1 / of_int m + 1 / 2) * (of_int m :: rat) < of_int j * of_int m"
      using mr by (simp only: mult_less_cancel_right_pos)
    moreover have "(v - 1 / of_int m + 1 / 2) * (of_int m :: rat) = of_int (k - 1 + h)"
      by (simp only: distrib_right left_diff_distrib vm hm one of_int_add of_int_diff of_int_1)
    ultimately have "(of_int (k - 1 + h) :: rat) < of_int (j * m)" by simp
    then have "k - 1 + h < j * m" by (simp only: of_int_less_iff)
    then have "k + h \<le> j * m" by simp
    then have "(of_int (k + h) :: rat) \<le> of_int (j * m)" by (simp only: of_int_le_iff)
    moreover have "(of_int (k + h) :: rat) = (v + 1 / 2) * of_int m"
      by (simp only: distrib_right vm hm of_int_add)
    ultimately have "(v + 1 / 2) * (of_int m :: rat) \<le> of_int j * of_int m" by simp
    then show ?thesis using mr by (simp only: mult_le_cancel_right_pos)
  qed
  define n where "n = Math_round y"
  have n: "of_int n \<le> y + 1 / 2" "y + 1 / 2 < of_int n + 1"
    unfolding n_def Math_round_def by linarith+
  from n(1) hi have "of_int n < v + 1 / of_int m + 1 / 2" by linarith
  then have a: "of_int n \<le> v + 1 / 2" by (rule up)
  from n(2) lo have "v - 1 / of_int m + 1 / 2 < of_int (n + 1)" by simp
  then have "v + 1 / 2 \<le> of_int (n + 1)" by (rule down)
  then have b: "v - 1 / 2 \<le> of_int n" by simp
  from a b show "\<bar>of_int (Math_round y) - v\<bar> \<le> 1 / 2" unfolding n_def by linarith
  show "Math_round y = Math_round v" if t: "frac v \<noteq> 1 / 2"
  proof -
    define N where "N = Math_round v"
    have N: "of_int N \<le> v + 1 / 2" "v + 1 / 2 < of_int N + 1"
      unfolding N_def Math_round_def by linarith+
    have "v + 1 / 2 \<noteq> of_int N"
    proof
      assume "v + 1 / 2 = of_int N"
      then have "v - 1 / 2 = of_int (N - 1)" by simp
      then have "v - 1 / 2 \<in> \<int>" by (simp only: Ints_of_int)
      then have "frac v = 1 / 2" unfolding frac_unique_iff by simp
      with t show False by simp
    qed
    with N(1) have "of_int N < v + 1 / 2" by linarith
    then have "\<not> v + 1 / 2 \<le> of_int N" by simp
    then have "\<not> v - 1 / of_int m + 1 / 2 < of_int N" using down by blast
    with lo have l: "of_int N \<le> y + 1 / 2" by linarith
    from N(2) have "\<not> of_int (N + 1) \<le> v + 1 / 2" by simp
    then have "\<not> of_int (N + 1) < v + 1 / of_int m + 1 / 2" using up by blast
    with hi have u: "y + 1 / 2 < of_int N + 1" by simp
    from l u have "\<lfloor>y + 1 / 2\<rfloor> = N" by (intro floor_unique)
    then show ?thesis by (simp add: Math_round_def N_def)
  qed
qed

section \<open>Numbers that binary64 holds exactly\<close>

lemma binary64_exact_pos:
  assumes "0 < m" "m < 2 ^ 53"
  shows "binary64 (of_int m * 2 powi j) = of_int m * 2 powi j"
proof -
  define x :: rat where "x = of_int m * 2 powi j"
  define e where "e = exponent x"
  have mr: "(0::rat) < of_int m" using assms(1) by simp
  have x0: "0 < x" unfolding x_def using mr by simp
  have lo: "2 powi e \<le> x" unfolding e_def using x0 by (rule exponent_bounds)
  have "(of_int m :: rat) < of_int (2 ^ 53)" using assms(2) by (simp only: of_int_less_iff)
  then have "(of_int m :: rat) < 2 ^ 53" by simp
  then have "x < 2 ^ 53 * 2 powi j" unfolding x_def by simp
  also have "(2::rat) ^ 53 * 2 powi j = 2 powi (53 + j)"
    by (subst power_int_add) simp_all
  finally have "2 powi e < (2::rat) powi (53 + j)" using lo by linarith
  then have "e < 53 + j"
    using powi_mono[of "53 + j" e] by (cases "e < 53 + j") auto
  then have n: "0 \<le> j - e + 52" by simp
  define n where "n = nat (j - e + 52)"
  have s: "(2::rat) powi (j - e + 52) = 2 ^ n" using n by (simp add: n_def powi_nat)
  have d: "(2::rat) powi j = 2 powi (j - e + 52) * 2 powi (e - 52)"
    by (subst power_int_add[symmetric]) simp_all
  have "x / 2 powi (e - 52) = of_int m * 2 ^ n"
    unfolding x_def d s by simp
  also have "\<dots> = of_int (m * 2 ^ n)" by simp
  finally have q: "x / 2 powi (e - 52) = of_int (m * 2 ^ n)" .
  have "binary64 x = of_int (round_half_even (x / 2 powi (e - 52))) * 2 powi (e - 52)"
    using x0 by (simp add: binary64_pos e_def)
  also have "\<dots> = of_int (m * 2 ^ n) * 2 powi (e - 52)" by (simp only: q rhe_of_int)
  also have "\<dots> = of_int m * (2 ^ n * 2 powi (e - 52))" by simp
  also have "\<dots> = x" unfolding x_def d s by simp
  finally show ?thesis by (simp only: x_def)
qed

lemma binary64_exact:
  assumes "\<bar>m\<bar> < 2 ^ 53"
  shows "binary64 (of_int m * 2 powi j) = of_int m * 2 powi j"
proof -
  consider "0 < m" | "m = 0" | "m < 0" by linarith
  then show ?thesis
  proof cases
    case 1 then show ?thesis using assms by (intro binary64_exact_pos) simp_all
  next
    case 2 then show ?thesis by simp
  next
    case 3
    then have "binary64 (of_int (- m) * 2 powi j) = of_int (- m) * 2 powi j"
      using assms by (intro binary64_exact_pos) simp_all
    then have "binary64 (- (of_int m * 2 powi j)) = - (of_int m * 2 powi j)" by simp
    then show ?thesis by (simp only: binary64_minus neg_equal_iff_equal)
  qed
qed


section \<open>The scheduling function\<close>

text \<open>
  On UTC a day on is 86400000 ms later. Where the clocks go forward in between, the same
  local time of day is reached an hour earlier, and local midnight lies an hour earlier.
\<close>

lemma addDays_examples:
  "addDays utc 0 1 = 86400000 \<and> addDays summerZone 0 1 = 82800000 \<and>
   startOfDay utc 90000000 = 86400000 \<and> startOfDay summerZone 90000000 = 79200000"
  by (simp add: addDays_def startOfDay_def utc_def summerZone_def UTC_def LocalTime_def
      msPerDay_def)

lemma calculateNextReview_Inr:
  "0 \<le> q \<Longrightarrow> q \<le> 5 \<Longrightarrow>
   calculateNextReview tz now s q =
     Inr \<lparr>interval =
            (if q < 3 then 1
             else if repetitions s + 1 = 1 then 1
             else if repetitions s + 1 = 2 then 3
             else Math_round (js_mul (of_int (interval s))
                    (js_div (spec_newEaseFactor (easeFactor s) q) 1000))),
          easeFactor = Math_round (spec_newEaseFactor (easeFactor s) q),
          repetitions = (if q < 3 then 0 else repetitions s + 1),
          nextReviewAt = addDays tz now
            (if q < 3 then 1
             else if repetitions s + 1 = 1 then 1
             else if repetitions s + 1 = 2 then 3
             else Math_round (js_mul (of_int (interval s))
                    (js_div (spec_newEaseFactor (easeFactor s) q) 1000)))\<rparr>"
  by (simp add: calculateNextReview_def spec_newEaseFactor_def spec_easeDelta_def Math_max_def
      Let_def not_less)

lemma Math_round_mono: "x \<le> y \<Longrightarrow> Math_round x \<le> Math_round y"
  by (simp add: Math_round_def floor_mono)

lemma Math_round_of_int [simp]: "Math_round (of_int n) = n"
  unfolding Math_round_def by linarith

lemma spec_newEaseFactor_ge: "1300 \<le> spec_newEaseFactor ef q"
  by (simp add: spec_newEaseFactor_def Math_max_def)

lemma Math_round_ge_1300: "1300 \<le> x \<Longrightarrow> 1300 \<le> Math_round x"
  by (simp add: Math_round_def le_floor_iff)

lemma spec_easeDelta_values:
  "map spec_easeDelta [0, 1, 2, 3, 4, 5] =
     [- (7036874417766399 / 8796093022208), - 540,
      - (5629499534213121 / 17592186044416),
      - (4925812092436479 / 35184372088832), 0, 100]"
  by code_simp


lemma exact_delta:
  assumes "q \<in> {0, 1, 2, 3, 4, 5}"
  shows "\<bar>spec_easeDelta (of_int q) - of_int (100 - (5 - q) * (80 + (5 - q) * 20))\<bar> \<le> 1 / 2 ^ 40"
  using assms spec_easeDelta_values by auto

lemma spec_easeDelta_exact_int:
  "spec_easeDelta_exact (of_int q) = of_int (100 - (5 - q) * (80 + (5 - q) * 20))"
  by (simp add: spec_easeDelta_exact_def field_simps)

lemma exact_easeFactor:
  assumes q: "q \<in> {0, 1, 2, 3, 4, 5}" and ef: "\<bar>ef\<bar> \<le> 2 ^ 31"
  shows "of_int (Math_round (spec_newEaseFactor ef (of_int q))) =
           max 1300 (of_int ef + spec_easeDelta_exact (of_int q))"
proof -
  define d where "d = 100 - (5 - q) * (80 + (5 - q) * 20)"
  have dd: "\<bar>d\<bar> \<le> 1000" using q unfolding d_def by auto
  have "\<bar>spec_easeDelta (of_int q) - of_int d\<bar> \<le> 1 / 2 ^ 40"
    unfolding d_def using q by (rule exact_delta)
  from exact_easeFactor_aux[OF this ef dd]
  have "Math_round (spec_newEaseFactor ef (of_int q)) = max 1300 (ef + d)"
    by (simp add: spec_newEaseFactor_def)
  then have "of_int (Math_round (spec_newEaseFactor ef (of_int q))) = (of_int (max 1300 (ef + d)) :: rat)"
    by simp
  also have "\<dots> = max 1300 (of_int ef + of_int d)" by (simp add: max_def)
  finally show ?thesis by (simp only: spec_easeDelta_exact_int d_def)
qed

lemma Math_max_near:
  assumes "\<bar>y - of_int n\<bar> \<le> e"
  shows "\<bar>Math_max y 1300 - of_int (max 1300 n)\<bar> \<le> e"
proof -
  have e: "0 \<le> e" using assms by linarith
  consider "n \<le> 1299" | "1300 \<le> n" by linarith
  then show ?thesis
  proof cases
    case 1
    then have "(of_int n :: rat) \<le> 1299" by (metis of_int_le_iff of_int_numeral)
    then show ?thesis using assms 1 e by (auto simp: Math_max_def max_def)
  next
    case 2
    then have "(1300 :: rat) \<le> of_int n" by (metis of_int_le_iff of_int_numeral)
    then show ?thesis using assms 2 e by (auto simp: Math_max_def max_def)
  qed
qed

lemma newEaseFactor_near:
  assumes q: "q \<in> {0, 1, 2, 3, 4, 5}" and ef: "\<bar>ef\<bar> \<le> 2 ^ 20"
  shows "\<bar>spec_newEaseFactor ef (of_int q) -
           of_int (max 1300 (ef + (100 - (5 - q) * (80 + (5 - q) * 20))))\<bar> \<le> 1 / 2 ^ 31"
proof -
  define d where "d = 100 - (5 - q) * (80 + (5 - q) * 20)"
  define D where "D = spec_easeDelta (of_int q)"
  define x :: rat where "x = of_int ef + D"
  have dd: "\<bar>d\<bar> \<le> 1000" using q unfolding d_def by auto
  have D: "\<bar>D - of_int d\<bar> \<le> 1 / 2 ^ 40"
    unfolding d_def D_def using q by (rule exact_delta)
  have efr: "\<bar>of_int ef :: rat\<bar> \<le> 2 ^ 20"
    using ef by (metis of_int_abs of_int_le_iff of_int_numeral of_int_power)
  have ddr: "\<bar>of_int d :: rat\<bar> \<le> 1000"
    using dd by (metis of_int_abs of_int_le_iff of_int_numeral)
  have "\<bar>x\<bar> \<le> \<bar>of_int ef\<bar> + \<bar>of_int d\<bar> + \<bar>D - of_int d\<bar>" unfolding x_def by linarith
  also have "\<dots> \<le> 2 ^ 20 + 1000 + 1 / 2 ^ 40" using efr ddr D by linarith
  also have "\<dots> \<le> 2 ^ 21" by simp
  finally have x: "\<bar>x\<bar> \<le> 2 ^ 21" .
  have "\<bar>binary64 x - x\<bar> \<le> \<bar>x\<bar> / 2 ^ 53" by (rule binary64_error)
  also have "\<dots> \<le> 2 ^ 21 / 2 ^ 53" using x by (simp add: divide_right_mono)
  finally have e: "\<bar>binary64 x - x\<bar> \<le> 1 / 2 ^ 32" by simp
  have "\<bar>binary64 x - of_int (ef + d)\<bar> \<le> \<bar>binary64 x - x\<bar> + \<bar>D - of_int d\<bar>"
    unfolding x_def by (simp; linarith?)
  also have "\<dots> \<le> 1 / 2 ^ 32 + 1 / 2 ^ 40" using e D by linarith
  also have "\<dots> \<le> 1 / 2 ^ 31" by simp
  finally have "\<bar>binary64 x - of_int (ef + d)\<bar> \<le> 1 / 2 ^ 31" .
  then have "\<bar>Math_max (binary64 x) 1300 - of_int (max 1300 (ef + d))\<bar> \<le> 1 / 2 ^ 31"
    by (rule Math_max_near)
  then show ?thesis
    by (simp only: spec_newEaseFactor_def js_add_def x_def D_def d_def)
qed

lemma interval_error:
  fixes e' :: rat and i E :: int
  assumes i: "1 \<le> i" "i \<le> 2 ^ 20" and E: "1300 \<le> E" "E \<le> 2 ^ 20 + 100"
    and e': "\<bar>e' - of_int E\<bar> \<le> 1 / 2 ^ 31"
  shows "\<bar>js_mul (of_int i) (js_div e' 1000) - of_int i * of_int E / 1000\<bar> < 1 / 1000"
proof -
  define q1 :: rat where "q1 = e' / 1000"
  define dd where "dd = binary64 q1"
  define p where "p = of_int i * dd"
  have ir: "(1::rat) \<le> of_int i" "(of_int i :: rat) \<le> 2 ^ 20"
    using i by (metis of_int_le_iff of_int_1, metis of_int_le_iff of_int_numeral of_int_power)
  have Er: "(1300::rat) \<le> of_int E" "(of_int E :: rat) \<le> 2 ^ 20 + 100"
    using E by (metis of_int_le_iff of_int_numeral,
        metis of_int_le_iff of_int_numeral of_int_power of_int_add)
  have Er': "(of_int E :: rat) \<le> 1048676" using Er(2) by simp
  have e'': "\<bar>e' - of_int E\<bar> \<le> 1" using e' by (rule order_trans) simp
  have "0 \<le> e'" "e' \<le> 2097152" using e'' Er(1) Er' by linarith+
  then have e1: "0 \<le> e'" "e' \<le> 2 ^ 21" by simp_all
  have q1: "0 \<le> q1" "q1 \<le> 2 ^ 12" using e1 by (simp_all add: q1_def)
  have "\<bar>dd - q1\<bar> \<le> \<bar>q1\<bar> / 2 ^ 53" unfolding dd_def by (rule binary64_error)
  also have "\<dots> \<le> 2 ^ 12 / 2 ^ 53" using q1 by (simp add: divide_right_mono)
  finally have d1: "\<bar>dd - q1\<bar> \<le> 1 / 2 ^ 41" by simp
  have "\<bar>dd - q1\<bar> \<le> 1" using d1 by (rule order_trans) simp
  moreover have "q1 \<le> 4096" using q1(2) by simp
  ultimately have "\<bar>dd\<bar> \<le> 8192" using q1(1) by linarith
  then have d2: "\<bar>dd\<bar> \<le> 2 ^ 13" by simp
  have "\<bar>p\<bar> = of_int i * \<bar>dd\<bar>" using ir by (simp add: p_def abs_mult)
  also have "\<dots> \<le> 2 ^ 20 * 2 ^ 13" using ir d2 by (intro mult_mono) simp_all
  finally have p: "\<bar>p\<bar> \<le> 2 ^ 33" by simp
  have "\<bar>binary64 p - p\<bar> \<le> \<bar>p\<bar> / 2 ^ 53" by (rule binary64_error)
  also have "\<dots> \<le> 2 ^ 33 / 2 ^ 53" using p by (simp add: divide_right_mono)
  finally have a: "\<bar>binary64 p - p\<bar> \<le> 1 / 2 ^ 20" by simp
  have "\<bar>p - of_int i * q1\<bar> = of_int i * \<bar>dd - q1\<bar>"
    using ir by (simp add: p_def abs_mult right_diff_distrib[symmetric])
  also have "\<dots> \<le> 2 ^ 20 * (1 / 2 ^ 41)" using ir d1 by (intro mult_mono) simp_all
  finally have b: "\<bar>p - of_int i * q1\<bar> \<le> 1 / 2 ^ 21" by simp
  have "\<bar>of_int i * q1 - of_int i * of_int E / 1000\<bar> = of_int i * (\<bar>e' - of_int E\<bar> / 1000)"
    using ir by (simp add: q1_def abs_mult right_diff_distrib[symmetric] diff_divide_distrib[symmetric])
  also have "\<dots> \<le> 2 ^ 20 * ((1 / 2 ^ 31) / 1000)"
    using ir e' by (intro mult_mono divide_right_mono) simp_all
  finally have c: "\<bar>of_int i * q1 - of_int i * of_int E / 1000\<bar> \<le> 1 / 2 ^ 11 / 1000" by simp
  have "\<bar>binary64 p - of_int i * of_int E / 1000\<bar> \<le>
          \<bar>binary64 p - p\<bar> + \<bar>p - of_int i * q1\<bar> + \<bar>of_int i * q1 - of_int i * of_int E / 1000\<bar>"
    by linarith
  also have "\<dots> \<le> 1 / 2 ^ 20 + 1 / 2 ^ 21 + 1 / 2 ^ 11 / 1000" using a b c by linarith
  also have "\<dots> < 1 / 1000" by simp
  finally show ?thesis by (simp only: js_mul_def js_div_def p_def dd_def q1_def)
qed

lemma interval_nearest:
  assumes n: "n \<in> {3, 4, 5}" and i: "1 \<le> interval s" "interval s \<le> 2 ^ 20"
    and ef: "\<bar>easeFactor s\<bar> \<le> 2 ^ 20" and rep: "repetitions s \<notin> {0, 1}"
  shows "\<exists>r. calculateNextReview tz now s (of_int n) = Inr r \<and>
           \<bar>of_int (interval r) - of_int (interval s) * of_int (easeFactor r) / (1000::rat)\<bar> \<le> 1 / 2 \<and>
           (frac (of_int (interval s) * of_int (easeFactor r) / (1000::rat)) \<noteq> 1 / 2 \<longrightarrow>
              interval r = spec_interval (interval s) (easeFactor r))"
proof -
  define E where "E = max 1300 (easeFactor s + (100 - (5 - n) * (80 + (5 - n) * 20)))"
  define e' where "e' = spec_newEaseFactor (easeFactor s) (of_int n)"
  define y where "y = js_mul (of_int (interval s)) (js_div e' 1000)"
  define v :: rat where "v = of_int (interval s) * of_int E / 1000"
  have q: "(0::rat) \<le> of_int n" "(of_int n :: rat) \<le> 5" "\<not> (of_int n :: rat) < 3"
    using n by auto
  have n6: "n \<in> {0, 1, 2, 3, 4, 5}" using n by auto
  have near: "\<bar>e' - of_int E\<bar> \<le> 1 / 2 ^ 31"
    unfolding e'_def E_def using n6 ef by (rule newEaseFactor_near)
  then have "\<bar>e' - of_int E\<bar> < 1 / 4" by (rule order_le_less_trans) simp
  then have "of_int E \<le> e' + 1 / 2" "e' + 1 / 2 < of_int E + 1" by linarith+
  then have "\<lfloor>e' + 1 / 2\<rfloor> = E" by (intro floor_unique)
  then have EF: "Math_round e' = E" by (simp add: Math_round_def)
  have E: "1300 \<le> E" "E \<le> 2 ^ 20 + 100" using n ef unfolding E_def by auto
  have err: "\<bar>y - v\<bar> < 1 / of_int 1000"
    unfolding y_def v_def using interval_error[OF i E near] by simp
  have vk: "v = of_int (interval s * E) / of_int 1000" by (simp add: v_def)
  have near1: "\<bar>of_int (Math_round y) - v\<bar> \<le> 1 / 2"
    by (rule Math_round_near(1)[OF _ _ vk err]) simp_all
  have near2: "frac v \<noteq> 1 / 2 \<Longrightarrow> Math_round y = Math_round v"
    by (rule Math_round_near(2)[OF _ _ vk err]) simp_all
  have c: "calculateNextReview tz now s (of_int n) =
      Inr \<lparr>interval = Math_round y, easeFactor = E, repetitions = repetitions s + 1,
           nextReviewAt = addDays tz now (Math_round y)\<rparr>"
    using q rep by (simp add: calculateNextReview_Inr EF[unfolded e'_def] y_def e'_def)
  show ?thesis
    unfolding c using near1 near2 by (simp add: v_def spec_interval_def)
qed

text \<open>
  Claim C1, as amended. For a state with \<open>interval \<ge> 1\<close> and a quality in \<open>[3,5]\<close>,
  \<open>calculateNextReview\<close> returns a state whose repetitions are the old ones plus 1 and
  whose interval is 1 when the new repetitions are 1, 3 when they are 2, and otherwise
  \<open>Math.round(oldInterval * (newEaseFactor / 1000))\<close> in double precision, the new ease
  factor being the old one after the SM-2 delta and the floor of 1300. For the qualities
  3, 4 and 5 the ease factor that is returned is the exact \<open>max(1300, old + delta)\<close>
  (for an ease factor within 32 bits), and from the third success on the interval is an
  integer nearest to the exact \<open>oldInterval * newEaseFactor / 1000\<close>: it is
  \<open>round(oldInterval * newEaseFactor / 1000)\<close> unless that product lies halfway between
  two integers, where it can be either of them (for intervals and ease factors up to
  \<open>2^20\<close>). From \<open>{interval: 3, easeFactor: 2500, repetitions: 2}\<close> and quality 5 the
  result has repetitions 3, ease factor 2600 and interval 8.
\<close>

theorem calculateNextReview_success:
  "(1 \<le> interval s \<and> 3 \<le> q \<and> q \<le> 5 \<longrightarrow>
     (\<exists>r. calculateNextReview tz now s q = Inr r \<and>
          repetitions r = repetitions s + 1 \<and>
          easeFactor r = Math_round (spec_newEaseFactor (easeFactor s) q) \<and>
          interval r =
            (if repetitions r = 1 then 1
             else if repetitions r = 2 then 3
             else Math_round (js_mul (of_int (interval s))
                    (js_div (spec_newEaseFactor (easeFactor s) q) 1000))))) \<and>
   (n \<in> {3, 4, 5} \<and> \<bar>easeFactor s\<bar> \<le> 2 ^ 31 \<longrightarrow>
     (\<exists>r. calculateNextReview tz now s (of_int n) = Inr r \<and>
          of_int (easeFactor r) =
            max 1300 (of_int (easeFactor s) + spec_easeDelta_exact (of_int n)))) \<and>
   (n \<in> {3, 4, 5} \<and> 1 \<le> interval s \<and> interval s \<le> 2 ^ 20 \<and> \<bar>easeFactor s\<bar> \<le> 2 ^ 20 \<and>
    repetitions s \<notin> {0, 1} \<longrightarrow>
     (\<exists>r. calculateNextReview tz now s (of_int n) = Inr r \<and>
          \<bar>of_int (interval r) - of_int (interval s) * of_int (easeFactor r) / (1000::rat)\<bar> \<le> 1 / 2 \<and>
          (frac (of_int (interval s) * of_int (easeFactor r) / (1000::rat)) \<noteq> 1 / 2 \<longrightarrow>
             interval r = spec_interval (interval s) (easeFactor r)))) \<and>
   (\<exists>r. calculateNextReview tz now
           \<lparr>interval = 3, easeFactor = 2500, repetitions = 2, nextReviewAt = t\<rparr> 5 = Inr r \<and>
        repetitions r = 3 \<and> easeFactor r = 2600 \<and> interval r = 8)"
proof (intro conjI impI)
  assume "1 \<le> interval s \<and> 3 \<le> q \<and> q \<le> 5"
  then show "\<exists>r. calculateNextReview tz now s q = Inr r \<and>
          repetitions r = repetitions s + 1 \<and>
          easeFactor r = Math_round (spec_newEaseFactor (easeFactor s) q) \<and>
          interval r =
            (if repetitions r = 1 then 1
             else if repetitions r = 2 then 3
             else Math_round (js_mul (of_int (interval s))
                    (js_div (spec_newEaseFactor (easeFactor s) q) 1000)))"
    by (simp add: calculateNextReview_Inr)
next
  assume h: "n \<in> {3, 4, 5} \<and> \<bar>easeFactor s\<bar> \<le> 2 ^ 31"
  then have q: "(0::rat) \<le> of_int n" "(of_int n :: rat) \<le> 5" by auto
  have "of_int (Math_round (spec_newEaseFactor (easeFactor s) (of_int n))) =
          max 1300 (of_int (easeFactor s) + spec_easeDelta_exact (of_int n))"
    using h by (intro exact_easeFactor) auto
  then show "\<exists>r. calculateNextReview tz now s (of_int n) = Inr r \<and>
          of_int (easeFactor r) =
            max 1300 (of_int (easeFactor s) + spec_easeDelta_exact (of_int n))"
    using q by (simp add: calculateNextReview_Inr)
next
  assume "n \<in> {3, 4, 5} \<and> 1 \<le> interval s \<and> interval s \<le> 2 ^ 20 \<and> \<bar>easeFactor s\<bar> \<le> 2 ^ 20 \<and>
    repetitions s \<notin> {0, 1}"
  then show "\<exists>r. calculateNextReview tz now s (of_int n) = Inr r \<and>
          \<bar>of_int (interval r) - of_int (interval s) * of_int (easeFactor r) / (1000::rat)\<bar> \<le> 1 / 2 \<and>
          (frac (of_int (interval s) * of_int (easeFactor r) / (1000::rat)) \<noteq> 1 / 2 \<longrightarrow>
             interval r = spec_interval (interval s) (easeFactor r))"
    by (intro interval_nearest) simp_all
next
  have "calculateNextReview tz now
           \<lparr>interval = 3, easeFactor = 2500, repetitions = 2, nextReviewAt = t\<rparr> 5 =
     Inr \<lparr>interval = 8, easeFactor = 2600, repetitions = 3, nextReviewAt = addDays tz now 8\<rparr>"
    by code_simp
  then show "\<exists>r. calculateNextReview tz now
           \<lparr>interval = 3, easeFactor = 2500, repetitions = 2, nextReviewAt = t\<rparr> 5 = Inr r \<and>
        repetitions r = 3 \<and> easeFactor r = 2600 \<and> interval r = 8"
    by simp
qed

text \<open>Quality 4 on a state with five repetitions, interval 6 and ease factor 2500.\<close>

theorem calculateNextReview_success_witness:
  "1 \<le> interval exampleState \<and> (3::rat) \<le> 4 \<and> (4::rat) \<le> 5 \<and>
   (4::int) \<in> {3, 4, 5} \<and> interval exampleState \<le> 2 ^ 20 \<and>
   \<bar>easeFactor exampleState\<bar> \<le> 2 ^ 20 \<and> repetitions exampleState \<notin> {0, 1} \<and>
   (\<exists>r. calculateNextReview utc 0 exampleState 4 = Inr r \<and> repetitions r = 6 \<and>
        easeFactor r = 2500 \<and> interval r = 15) \<and>
   frac (6 * 2500 / 1000 :: rat) \<noteq> 1 / 2 \<and> spec_interval 6 2500 = 15"
proof -
  have h: "1 \<le> interval exampleState \<and> (3::rat) \<le> 4 \<and> (4::rat) \<le> 5"
    by (simp add: exampleState_def)
  have g: "(4::int) \<in> {3, 4, 5} \<and> 1 \<le> interval exampleState \<and> interval exampleState \<le> 2 ^ 20 \<and>
      \<bar>easeFactor exampleState\<bar> \<le> 2 ^ 20 \<and> repetitions exampleState \<notin> {0, 1}"
    by (simp add: exampleState_def)
  have "(6 * 2500 / 1000 :: rat) = of_int 15" by simp
  then have "frac (6 * 2500 / 1000 :: rat) = 0" by (simp only: frac_of_int)
  then have f: "frac (6 * 2500 / 1000 :: rat) \<noteq> 1 / 2" by (simp only:)
  have v: "spec_interval 6 2500 = 15" by code_simp
  note t = calculateNextReview_success[where s = exampleState and q = 4 and now = 0 and n = 4
      and tz = utc]
  from t h obtain r where r: "calculateNextReview utc 0 exampleState 4 = Inr r"
    and "repetitions r = repetitions exampleState + 1"
    by auto
  from t g obtain r' where r': "calculateNextReview utc 0 exampleState (of_int 4) = Inr r'"
    and e: "rat_of_int (easeFactor r') =
      max 1300 (rat_of_int (easeFactor exampleState) + spec_easeDelta_exact (of_int 4))"
    by auto
  from t g obtain r'' where r'': "calculateNextReview utc 0 exampleState (of_int 4) = Inr r''"
    and i: "frac (of_int (interval exampleState) * of_int (easeFactor r'') / 1000 :: rat) \<noteq> 1 / 2 \<longrightarrow>
             interval r'' = spec_interval (interval exampleState) (easeFactor r'')"
    by blast
  from r r' r'' have eq: "r' = r" "r'' = r" by simp_all
  from e have "rat_of_int (easeFactor r) = rat_of_int 2500"
    unfolding eq by (simp add: exampleState_def spec_easeDelta_exact_def)
  then have e2: "easeFactor r = 2500" by (simp only: of_int_eq_iff)
  from i have "interval r = 15"
    unfolding eq e2 using f v by (simp add: exampleState_def)
  with r e2 \<open>repetitions r = repetitions exampleState + 1\<close>
  have "calculateNextReview utc 0 exampleState 4 = Inr r \<and> repetitions r = 6 \<and>
        easeFactor r = 2500 \<and> interval r = 15"
    by (simp add: exampleState_def)
  then show ?thesis using h g f v by blast
qed

text \<open>
  Claim C1 as stated fails: from \<open>{interval: 25, easeFactor: 2160, repetitions: 2}\<close> and
  quality 5 the new ease factor is 2260 and the interval 56, where
  \<open>round(25 * 2260 / 1000)\<close> is 57: the double nearest to 2.26 lies below it, and so does
  its product with 25 below 56.5. From ease factor 2200 the new one is 2300 and the
  interval 57, where the exact 57.5 rounds to 58, also when a tie is rounded to the even
  neighbour. (On a server on UTC, at the epoch.)
\<close>

theorem interval_tie_counterexample:
  "calculateNextReview utc 0
     \<lparr>interval = 25, easeFactor = 2160, repetitions = 2, nextReviewAt = 0\<rparr> 5 =
     Inr \<lparr>interval = 56, easeFactor = 2260, repetitions = 3, nextReviewAt = 4838400000\<rparr> \<and>
   spec_interval 25 2260 = 57 \<and>
   calculateNextReview utc 0
     \<lparr>interval = 25, easeFactor = 2200, repetitions = 2, nextReviewAt = 0\<rparr> 5 =
     Inr \<lparr>interval = 57, easeFactor = 2300, repetitions = 3, nextReviewAt = 4924800000\<rparr> \<and>
   spec_interval 25 2300 = 58 \<and> round_half_even (25 * 2300 / 1000) = 58"
  by code_simp

text \<open>
  Claim C2. For every state and every quality in \<open>[0,2]\<close>, \<open>calculateNextReview\<close>
  returns repetitions 0 and interval 1, whatever the state was, and the ease factor is
  still the old one plus the SM-2 delta, floored at 1300. For the qualities 0, 1 and 2 and
  an ease factor within 32 bits this is the exact \<open>max(1300, old + delta)\<close>, with the
  deltas -800, -540 and -320.
\<close>

theorem calculateNextReview_failure:
  "(0 \<le> q \<and> q \<le> 2 \<longrightarrow>
     (\<exists>r. calculateNextReview tz now s q = Inr r \<and> repetitions r = 0 \<and> interval r = 1 \<and>
          easeFactor r =
            Math_round (Math_max (js_add (of_int (easeFactor s)) (spec_easeDelta q)) 1300))) \<and>
   (n \<in> {0, 1, 2} \<and> \<bar>easeFactor s\<bar> \<le> 2 ^ 31 \<longrightarrow>
     (\<exists>r. calculateNextReview tz now s (of_int n) = Inr r \<and> repetitions r = 0 \<and> interval r = 1 \<and>
          of_int (easeFactor r) =
            max 1300 (of_int (easeFactor s) + spec_easeDelta_exact (of_int n))))"
proof (intro conjI impI)
  assume "0 \<le> q \<and> q \<le> 2"
  then show "\<exists>r. calculateNextReview tz now s q = Inr r \<and> repetitions r = 0 \<and> interval r = 1 \<and>
          easeFactor r =
            Math_round (Math_max (js_add (of_int (easeFactor s)) (spec_easeDelta q)) 1300)"
    by (simp add: calculateNextReview_Inr spec_newEaseFactor_def)
next
  assume h: "n \<in> {0, 1, 2} \<and> \<bar>easeFactor s\<bar> \<le> 2 ^ 31"
  then have q: "(0::rat) \<le> of_int n" "(of_int n :: rat) \<le> 5" "(of_int n :: rat) < 3" by auto
  have "of_int (Math_round (spec_newEaseFactor (easeFactor s) (of_int n))) =
          max 1300 (of_int (easeFactor s) + spec_easeDelta_exact (of_int n))"
    using h by (intro exact_easeFactor) auto
  then show "\<exists>r. calculateNextReview tz now s (of_int n) = Inr r \<and> repetitions r = 0 \<and> interval r = 1 \<and>
          of_int (easeFactor r) =
            max 1300 (of_int (easeFactor s) + spec_easeDelta_exact (of_int n))"
    using q by (simp add: calculateNextReview_Inr)
qed

text \<open>Scenario C of the specification: four repetitions, ease factor 2100, quality 1.\<close>

theorem calculateNextReview_failure_witness:
  "(0::rat) \<le> 1 \<and> (1::rat) \<le> 2 \<and> (1::int) \<in> {0, 1, 2} \<and> \<bar>2100::int\<bar> \<le> 2 ^ 31 \<and>
   (\<exists>r. calculateNextReview utc 0 \<lparr>interval = 9, easeFactor = 2100, repetitions = 4, nextReviewAt = 0\<rparr> 1 = Inr r \<and>
        repetitions r = 0 \<and> interval r = 1 \<and> easeFactor r = 1560)"
proof -
  let ?s = "\<lparr>interval = 9, easeFactor = 2100, repetitions = 4, nextReviewAt = 0\<rparr>"
  note t = calculateNextReview_failure[where q = 1 and n = 1 and now = 0 and s = ?s and tz = utc]
  from t obtain r where r: "calculateNextReview utc 0 ?s 1 = Inr r"
    and "repetitions r = 0" and "interval r = 1"
    and "rat_of_int (easeFactor r) = max 1300 (rat_of_int (easeFactor ?s) + spec_easeDelta_exact 1)"
    by auto
  moreover from this have "rat_of_int (easeFactor r) = rat_of_int 1560"
    by (simp add: spec_easeDelta_exact_def)
  then have "easeFactor r = 1560" by (simp only: of_int_eq_iff)
  ultimately show ?thesis by auto
qed

lemma recordAnswer_written_rows:
  assumes "recordAnswer (Some db) now rnd userId phraseId isCorrect = (Some db', ok)"
    and "row \<in> set (userProgress db')" and "row \<notin> set (userProgress db)"
  shows "1300 \<le> up_easeFactor row"
  using assms
  by (auto simp: recordAnswer_def insertKeyed_def Let_def split: list.splits if_splits)

text \<open>
  Claim C3. For every state and every quality in \<open>[0,5]\<close> the state returned by
  \<open>calculateNextReview\<close> has an ease factor of at least 1300, and so has every row that
  the simplified record-answer path writes (a row of the new table that is not in the old
  one), for a correct and for an incorrect answer.
\<close>

theorem easeFactor_floor:
  "(0 \<le> q \<and> q \<le> 5 \<longrightarrow>
      (\<exists>r. calculateNextReview tz now s q = Inr r \<and> 1300 \<le> easeFactor r)) \<and>
   (recordAnswer (Some db) now' rnd userId phraseId isCorrect = (Some db', ok) \<and>
    row \<in> set (userProgress db') \<and> row \<notin> set (userProgress db) \<longrightarrow>
      1300 \<le> up_easeFactor row)"
  by (auto simp: calculateNextReview_Inr Math_round_ge_1300 spec_newEaseFactor_ge
      dest: recordAnswer_written_rows)

text \<open>Quality 0 on the example state, and an incorrect answer on a row with ease factor
  1350: the floor holds the new ease factor at 1300.\<close>

theorem easeFactor_floor_witness:
  "(0::rat) \<le> 0 \<and> (0::rat) \<le> 5 \<and>
   (\<exists>r. calculateNextReview utc 0 exampleState 0 = Inr r \<and> 1300 \<le> easeFactor r) \<and>
   recordAnswer (Some exampleDb) 1000 ''k3j'' ''u1'' ''ph1'' False =
     (Some (exampleDb\<lparr>userProgress :=
        [exampleProgress\<lparr>up_interval := 1, up_easeFactor := 1300, up_repetitions := 0,
           up_incorrectCount := 1, up_lastReviewedAt := Some 1000,
           up_nextReviewAt := 86401000, up_updatedAt := Some 1000\<rparr>]\<rparr>), True) \<and>
   1300 \<le> up_easeFactor (exampleProgress\<lparr>up_interval := 1, up_easeFactor := 1300, up_repetitions := 0,
           up_incorrectCount := 1, up_lastReviewedAt := Some 1000,
           up_nextReviewAt := 86401000, up_updatedAt := Some 1000\<rparr>)"
proof -
  have r: "recordAnswer (Some exampleDb) 1000 ''k3j'' ''u1'' ''ph1'' False =
     (Some (exampleDb\<lparr>userProgress :=
        [exampleProgress\<lparr>up_interval := 1, up_easeFactor := 1300, up_repetitions := 0,
           up_incorrectCount := 1, up_lastReviewedAt := Some 1000,
           up_nextReviewAt := 86401000, up_updatedAt := Some 1000\<rparr>]\<rparr>), True)"
    by (simp add: recordAnswer_def exampleDb_def exampleProgress_def)
  from easeFactor_floor[where q = 0 and tz = utc and now = 0 and s = exampleState
      and db = exampleDb and now' = 1000 and rnd = "''k3j''" and userId = "''u1''"
      and phraseId = "''ph1''" and isCorrect = False and ok = True
      and db' = "exampleDb\<lparr>userProgress :=
        [exampleProgress\<lparr>up_interval := 1, up_easeFactor := 1300, up_repetitions := 0,
           up_incorrectCount := 1, up_lastReviewedAt := Some 1000,
           up_nextReviewAt := 86401000, up_updatedAt := Some 1000\<rparr>]\<rparr>"
      and row = "exampleProgress\<lparr>up_interval := 1, up_easeFactor := 1300, up_repetitions := 0,
           up_incorrectCount := 1, up_lastReviewedAt := Some 1000,
           up_nextReviewAt := 86401000, up_updatedAt := Some 1000\<rparr>"] r
  show ?thesis by (simp add: exampleDb_def exampleProgress_def)
qed

section \<open>Invalid input and the first answer\<close>

lemma calculateNextReview_Inl:
  "q < 0 \<or> 5 < q \<Longrightarrow> calculateNextReview tz now s q = Inl InvalidInput"
  by (simp add: calculateNextReview_def)

lemma submitReview_body_invalid:
  assumes "q < 0 \<or> 5 < q"
  shows "submitReview_body tz db now userId pid q = (db, Inl NotFound) \<or>
         submitReview_body tz db now userId pid q = (db, Inl InvalidInput)"
  using assms
  by (simp add: submitReview_body_def calculateNextReview_Inl split: list.splits)

lemma submitReview_mutation_throws:
  "submitReview_mutation tz store now userId pid q = (store, Inl TypeError)"
  by (simp add: submitReview_mutation_def getDb_def)

text \<open>
  Claim C9. \<open>calculateNextReview\<close> raises an error exactly when the quality is outside
  \<open>[0,5]\<close>, and the error is the invalid-input one. In the \<open>submitReview\<close> flow an
  invalid quality is refused before any write: the procedure refuses the input at its
  schema; the mutation as it is written ends in an error with the store as it was; and so
  does its body on a client.
\<close>

theorem invalid_quality_rejected:
  "((\<exists>e. calculateNextReview tz now s q = Inl e) \<longleftrightarrow> q < 0 \<or> 5 < q) \<and>
   (q < 0 \<or> 5 < q \<longrightarrow>
      calculateNextReview tz now s q = Inl InvalidInput \<and>
      fst (submitReview_mutation tz db now userId pid q) = db \<and>
      isl (snd (submitReview_mutation tz db now userId pid q)) \<and>
      submitReview tz db now userId pid q = (db, Inl ValidationError) \<and>
      fst (submitReview_body tz client now userId pid q) = client \<and>
      isl (snd (submitReview_body tz client now userId pid q)))"
proof (intro conjI impI)
  show "(\<exists>e. calculateNextReview tz now s q = Inl e) \<longleftrightarrow> q < 0 \<or> 5 < q"
  proof
    assume "\<exists>e. calculateNextReview tz now s q = Inl e"
    then show "q < 0 \<or> 5 < q"
      by (cases "0 \<le> q \<and> q \<le> 5") (auto simp: calculateNextReview_Inr)
  next
    assume "q < 0 \<or> 5 < q"
    then show "\<exists>e. calculateNextReview tz now s q = Inl e"
      by (simp add: calculateNextReview_Inl)
  qed
next
  assume h: "q < 0 \<or> 5 < q"
  then show "calculateNextReview tz now s q = Inl InvalidInput" by (rule calculateNextReview_Inl)
  show "fst (submitReview_mutation tz db now userId pid q) = db"
    and "isl (snd (submitReview_mutation tz db now userId pid q))"
    by (simp_all add: submitReview_mutation_throws)
  from h show "submitReview tz db now userId pid q = (db, Inl ValidationError)"
    by (auto simp: submitReview_def)
  from submitReview_body_invalid[OF h, of tz client now userId pid]
  show "fst (submitReview_body tz client now userId pid q) = client"
    and "isl (snd (submitReview_body tz client now userId pid q))"
    by auto
qed

text \<open>
  Quality 6 on the example store, whose row \<open>p1\<close> belongs to the caller: the schema
  refuses it, the mutation as written throws at its first query, and its body on a client
  throws the invalid-input error. Quality 5 is accepted.
\<close>

theorem invalid_quality_rejected_witness:
  "((6::rat) < 0 \<or> (5::rat) < 6) \<and>
   calculateNextReview utc 1000 exampleState 6 = Inl InvalidInput \<and>
   submitReview_mutation utc (Some exampleDb) 1000 ''u1'' ''p1'' 6 = (Some exampleDb, Inl TypeError) \<and>
   submitReview utc (Some exampleDb) 1000 ''u1'' ''p1'' 6 = (Some exampleDb, Inl ValidationError) \<and>
   submitReview_body utc exampleDb 1000 ''u1'' ''p1'' 6 = (exampleDb, Inl InvalidInput) \<and>
   (\<exists>r. calculateNextReview utc 0 exampleState 5 = Inr r)"
proof -
  have h: "(6::rat) < 0 \<or> (5::rat) < 6" by simp
  have m: "submitReview_mutation utc (Some exampleDb) 1000 ''u1'' ''p1'' 6 =
      (Some exampleDb, Inl TypeError)"
    by (simp add: submitReview_mutation_def getDb_def)
  have b: "submitReview_body utc exampleDb 1000 ''u1'' ''p1'' 6 = (exampleDb, Inl InvalidInput)"
    by (simp add: submitReview_body_def exampleDb_def exampleProgress_def calculateNextReview_def)
  have r: "\<exists>r. calculateNextReview utc 0 exampleState 5 = Inr r"
    by (simp add: calculateNextReview_Inr)
  from invalid_quality_rejected[where now = 1000 and s = exampleState and q = 6
      and db = "Some exampleDb" and userId = "''u1''" and pid = "''p1''" and tz = utc
      and client = exampleDb] h m b r
  show ?thesis by simp
qed

lemma length_showNat: "n < 10 ^ k \<Longrightarrow> 0 < k \<Longrightarrow> length (showNat n) \<le> k"
proof (induction k arbitrary: n)
  case 0
  then show ?case by simp
next
  case (Suc k)
  show ?case
  proof (cases "n < 10")
    case True
    then show ?thesis by (simp add: showNat.simps)
  next
    case False
    with Suc.prems have k: "0 < k" by (cases k) simp_all
    from Suc.prems have "n div 10 < 10 ^ k" by (simp add: less_mult_imp_div_less mult.commute)
    from Suc.IH[OF this k] False show ?thesis by (subst showNat.simps) simp
  qed
qed

lemma insertRow_fits:
  "length (key row) \<le> 64 \<Longrightarrow> insertRow key row table = insertKeyed key row table"
  by (simp add: insertRow_def)

text \<open>
  The clock of a \<open>Date\<close> after 1970 has at most 16 digits: the id of the record-answer
  path fits its column, and there \<open>insertRow\<close> and \<open>insertKeyed\<close> are the same.
\<close>

lemma recordAnswer_id_fits:
  assumes "0 \<le> now" "now < 10 ^ 16" "length rnd \<le> 9"
  shows "length (''progress_'' @ showInt now @ ''_'' @ rnd) \<le> 64"
proof -
  from assms have "nat now < 10 ^ 16" by (simp add: nat_less_iff)
  then have "length (showNat (nat now)) \<le> 16" by (rule length_showNat) simp
  then show ?thesis using assms by (simp add: showInt_def)
qed

lemma recordAnswer_insert:
  assumes "filter (\<lambda>r. up_userId r = userId \<and> up_phraseId r = phraseId) (userProgress db) = []"
    and "''progress_'' @ showInt now @ ''_'' @ rnd \<notin> set (map up_id (userProgress db))"
  shows "recordAnswer (Some db) now rnd userId phraseId isCorrect =
    (Some (db\<lparr>userProgress := userProgress db @
       [\<lparr>up_id = ''progress_'' @ showInt now @ ''_'' @ rnd,
         up_userId = userId, up_phraseId = phraseId,
         up_interval = 1, up_easeFactor = (if isCorrect then 2500 else 1300),
         up_repetitions = (if isCorrect then 1 else 0),
         up_correctCount = (if isCorrect then 1 else 0),
         up_incorrectCount = (if isCorrect then 0 else 1),
         up_lastReviewedAt = Some now, up_nextReviewAt = now + msPerDay,
         up_status = (if isCorrect then StatusLearning else StatusNew),
         up_createdAt = Some now, up_updatedAt = Some now\<rparr>]\<rparr>), True)"
  using assms
  by (simp add: recordAnswer_def insertKeyed_def msPerDay_def Let_def)

text \<open>
  Claim C10. When the record-answer path is called for a phrase without a progress row
  (and the new id is not taken), it appends one row with interval 1 and the next review
  one day after now; the row has repetitions 1, ease factor 2500 and status learning for a
  correct answer, and repetitions 0, ease factor 1300 and status new for an incorrect one.
\<close>

theorem recordAnswer_first_answer:
  "filter (\<lambda>r. up_userId r = userId \<and> up_phraseId r = phraseId) (userProgress db) = [] \<and>
   ''progress_'' @ showInt now @ ''_'' @ rnd \<notin> set (map up_id (userProgress db)) \<longrightarrow>
   (\<exists>row. recordAnswer (Some db) now rnd userId phraseId isCorrect =
            (Some (db\<lparr>userProgress := userProgress db @ [row]\<rparr>), True) \<and>
          up_userId row = userId \<and> up_phraseId row = phraseId \<and>
          up_interval row = 1 \<and> up_nextReviewAt row = now + msPerDay \<and>
          (if isCorrect
           then up_repetitions row = 1 \<and> up_easeFactor row = 2500 \<and> up_status row = StatusLearning
           else up_repetitions row = 0 \<and> up_easeFactor row = 1300 \<and> up_status row = StatusNew))"
proof
  assume h: "filter (\<lambda>r. up_userId r = userId \<and> up_phraseId r = phraseId) (userProgress db) = [] \<and>
   ''progress_'' @ showInt now @ ''_'' @ rnd \<notin> set (map up_id (userProgress db))"
  then have "recordAnswer (Some db) now rnd userId phraseId isCorrect =
    (Some (db\<lparr>userProgress := userProgress db @
       [\<lparr>up_id = ''progress_'' @ showInt now @ ''_'' @ rnd,
         up_userId = userId, up_phraseId = phraseId,
         up_interval = 1, up_easeFactor = (if isCorrect then 2500 else 1300),
         up_repetitions = (if isCorrect then 1 else 0),
         up_correctCount = (if isCorrect then 1 else 0),
         up_incorrectCount = (if isCorrect then 0 else 1),
         up_lastReviewedAt = Some now, up_nextReviewAt = now + msPerDay,
         up_status = (if isCorrect then StatusLearning else StatusNew),
         up_createdAt = Some now, up_updatedAt = Some now\<rparr>]\<rparr>), True)"
    by (intro recordAnswer_insert) simp_all
  then show "\<exists>row. recordAnswer (Some db) now rnd userId phraseId isCorrect =
            (Some (db\<lparr>userProgress := userProgress db @ [row]\<rparr>), True) \<and>
          up_userId row = userId \<and> up_phraseId row = phraseId \<and>
          up_interval row = 1 \<and> up_nextReviewAt row = now + msPerDay \<and>
          (if isCorrect
           then up_repetitions row = 1 \<and> up_easeFactor row = 2500 \<and> up_status row = StatusLearning
           else up_repetitions row = 0 \<and> up_easeFactor row = 1300 \<and> up_status row = StatusNew)"
    by (intro exI[of _ "\<lparr>up_id = ''progress_'' @ showInt now @ ''_'' @ rnd,
         up_userId = userId, up_phraseId = phraseId,
         up_interval = 1, up_easeFactor = (if isCorrect then 2500 else 1300),
         up_repetitions = (if isCorrect then 1 else 0),
         up_correctCount = (if isCorrect then 1 else 0),
         up_incorrectCount = (if isCorrect then 0 else 1),
         up_lastReviewedAt = Some now, up_nextReviewAt = now + msPerDay,
         up_status = (if isCorrect then StatusLearning else StatusNew),
         up_createdAt = Some now, up_updatedAt = Some now\<rparr>"]) simp
qed


text \<open>A first, incorrect answer of user \<open>u2\<close>: the ease factor is 1300, where the SM-2
  delta for quality 2 would give 2180 from the default 2500 and the fixed delta of the
  update branch 2400.\<close>

theorem recordAnswer_first_answer_witness:
  "filter (\<lambda>r. up_userId r = ''u2'' \<and> up_phraseId r = ''ph9'') (userProgress exampleDb) = [] \<and>
   ''progress_'' @ showInt 1000 @ ''_'' @ ''k3j'' \<notin> set (map up_id (userProgress exampleDb)) \<and>
   (\<exists>row. recordAnswer (Some exampleDb) 1000 ''k3j'' ''u2'' ''ph9'' False =
            (Some (exampleDb\<lparr>userProgress := userProgress exampleDb @ [row]\<rparr>), True) \<and>
          up_interval row = 1 \<and> up_nextReviewAt row = 86401000 \<and>
          up_repetitions row = 0 \<and> up_easeFactor row = 1300 \<and> up_status row = StatusNew) \<and>
   Math_round (spec_newEaseFactor 2500 2) = 2180 \<and>
   max 1300 (2500 + 100 * (2 - 3)) = (2400::int)"
proof -
  have h: "filter (\<lambda>r. up_userId r = ''u2'' \<and> up_phraseId r = ''ph9'') (userProgress exampleDb) = [] \<and>
   ''progress_'' @ showInt 1000 @ ''_'' @ ''k3j'' \<notin> set (map up_id (userProgress exampleDb))"
    by (simp add: exampleDb_def exampleProgress_def)
  have v: "Math_round (spec_newEaseFactor 2500 2) = 2180"
    by code_simp
  from recordAnswer_first_answer[of "''u2''" "''ph9''" exampleDb 1000 "''k3j''" False] h
  obtain row where "recordAnswer (Some exampleDb) 1000 ''k3j'' ''u2'' ''ph9'' False =
            (Some (exampleDb\<lparr>userProgress := userProgress exampleDb @ [row]\<rparr>), True)"
    and "up_interval row = 1" and "up_nextReviewAt row = 1000 + msPerDay"
    and "up_repetitions row = 0" and "up_easeFactor row = 1300" and "up_status row = StatusNew"
    by auto
  then have "\<exists>row. recordAnswer (Some exampleDb) 1000 ''k3j'' ''u2'' ''ph9'' False =
            (Some (exampleDb\<lparr>userProgress := userProgress exampleDb @ [row]\<rparr>), True) \<and>
          up_interval row = 1 \<and> up_nextReviewAt row = 86401000 \<and>
          up_repetitions row = 0 \<and> up_easeFactor row = 1300 \<and> up_status row = StatusNew"
    by (auto simp: msPerDay_def)
  with h v show ?thesis by simp
qed

section \<open>Completing a task\<close>

lemma taskIdOf_inj: "taskIdOf u p ty now = taskIdOf u p ty' now \<Longrightarrow> ty = ty'"
  by (cases ty; cases ty'; simp add: taskIdOf_def)

lemma taskCount_append:
  "taskCount (xs @ ys) u p ty = taskCount xs u p ty + taskCount ys u p ty"
  by (simp add: taskCount_def)

lemma taskCount_markCompleted:
  "taskCount (map (markCompleted now tid c secs) tasks) u p ty = taskCount tasks u p ty"
  by (induction tasks) (auto simp: taskCount_def markCompleted_def)

lemma ids_markCompleted:
  "map dt_id (map (markCompleted now tid c secs) tasks) = map dt_id tasks"
  by (induction tasks) (auto simp: markCompleted_def)

lemma scheduleLoop_counts:
  assumes "distinct (map snd sch)"
    and "\<forall>ty \<in> set (map snd sch). taskCount tasks u p ty = 0 \<longrightarrow>
           taskIdOf u p ty now \<notin> set (map dt_id tasks) \<and> length (taskIdOf u p ty now) \<le> 64"
  shows "taskCount (scheduleLoop tz now u p sch tasks) u p ty =
           (if ty \<in> set (map snd sch) \<and> taskCount tasks u p ty = 0 then 1
            else taskCount tasks u p ty)"
  using assms
proof (induction sch arbitrary: tasks)
  case Nil
  then show ?case by simp
next
  case (Cons a rest)
  obtain days type where a: "a = (days, type)" by (cases a)
  from Cons.prems have d: "distinct (map snd rest)" and nt: "type \<notin> set (map snd rest)"
    by (simp_all add: a)
  show ?case
  proof (cases "taskCount tasks u p type = 0")
    case False
    then have ex: "filter (\<lambda>t. dt_userId t = u \<and> dt_phraseId t = p \<and> dt_taskType t = type) tasks \<noteq> []"
      by (simp add: taskCount_def)
    have "scheduleLoop tz now u p (a # rest) tasks = scheduleLoop tz now u p rest tasks"
      using ex by (simp add: a Let_def)
    moreover have "taskCount (scheduleLoop tz now u p rest tasks) u p ty =
           (if ty \<in> set (map snd rest) \<and> taskCount tasks u p ty = 0 then 1
            else taskCount tasks u p ty)"
      using Cons.prems d by (intro Cons.IH) (simp_all add: a)
    moreover have "(ty \<in> set (map snd (a # rest))) = (ty = type \<or> ty \<in> set (map snd rest))"
      by (auto simp: a)
    ultimately show ?thesis using False by (simp only:) auto
  next
    case True
    then have ex: "filter (\<lambda>t. dt_userId t = u \<and> dt_phraseId t = p \<and> dt_taskType t = type) tasks = []"
      by (simp add: taskCount_def)
    define row where "row = \<lparr>dt_id = taskIdOf u p type now,
                    dt_userId = u, dt_phraseId = p,
                    dt_scheduledDate = startOfDay tz (addDays tz now days), dt_taskType = type,
                    dt_daysFromLearning = days, dt_status = Pending,
                    dt_completedAt = None, dt_isCorrect = None, dt_timeSpentSeconds = None,
                    dt_createdAt = Some now, dt_updatedAt = Some now\<rparr>"
    have fresh: "taskIdOf u p type now \<notin> set (map dt_id tasks)"
      and fits: "length (taskIdOf u p type now) \<le> 64"
      using Cons.prems True by (simp_all add: a)
    have step: "scheduleLoop tz now u p (a # rest) tasks = scheduleLoop tz now u p rest (tasks @ [row])"
      using ex fresh fits by (simp add: a Let_def insertRow_def insertKeyed_def row_def taskIdOf_def)
    have fresh': "\<forall>ty \<in> set (map snd rest). taskCount (tasks @ [row]) u p ty = 0 \<longrightarrow>
           taskIdOf u p ty now \<notin> set (map dt_id (tasks @ [row])) \<and>
           length (taskIdOf u p ty now) \<le> 64"
    proof (intro ballI impI)
      fix ty' assume m: "ty' \<in> set (map snd rest)"
        and z: "taskCount (tasks @ [row]) u p ty' = 0"
      from z have "taskCount tasks u p ty' = 0" by (simp add: taskCount_append)
      with m have old: "taskIdOf u p ty' now \<notin> set (map dt_id tasks)"
        and len: "length (taskIdOf u p ty' now) \<le> 64"
        using Cons.prems by (auto simp: a)
      have "ty' \<noteq> type" using m nt by auto
      then have "taskIdOf u p ty' now \<noteq> taskIdOf u p type now" using taskIdOf_inj by blast
      with old have "taskIdOf u p ty' now \<notin> set (map dt_id (tasks @ [row]))"
        by (simp add: row_def)
      with len show "taskIdOf u p ty' now \<notin> set (map dt_id (tasks @ [row])) \<and>
           length (taskIdOf u p ty' now) \<le> 64"
        by simp
    qed
    have "taskCount (scheduleLoop tz now u p rest (tasks @ [row])) u p ty =
           (if ty \<in> set (map snd rest) \<and> taskCount (tasks @ [row]) u p ty = 0 then 1
            else taskCount (tasks @ [row]) u p ty)"
      using d fresh' by (rule Cons.IH)
    moreover have "taskCount (tasks @ [row]) u p ty = taskCount tasks u p ty + (if ty = type then 1 else 0)"
      by (simp add: taskCount_append) (simp add: taskCount_def row_def)
    moreover have "(ty \<in> set (map snd (a # rest))) = (ty = type \<or> ty \<in> set (map snd rest))"
      by (auto simp: a)
    moreover note step
    ultimately show ?thesis using True nt by (simp only:) auto
  qed
qed


lemma scheduleLoop_all_present:
  assumes "\<forall>ty \<in> set (map snd sch). taskCount tasks u p ty \<noteq> 0"
  shows "scheduleLoop tz now u p sch tasks = tasks"
  using assms
proof (induction sch)
  case Nil
  then show ?case by simp
next
  case (Cons a rest)
  obtain days type where a: "a = (days, type)" by (cases a)
  from Cons.prems have "taskCount tasks u p type \<noteq> 0" by (simp add: a)
  then have "filter (\<lambda>t. dt_userId t = u \<and> dt_phraseId t = p \<and> dt_taskType t = type) tasks \<noteq> []"
    by (simp add: taskCount_def)
  then have "scheduleLoop tz now u p (a # rest) tasks = scheduleLoop tz now u p rest tasks"
    by (simp add: a Let_def)
  also have "\<dots> = tasks" using Cons.prems by (intro Cons.IH) simp
  finally show ?case .
qed

lemma completeDailyTask_existing:
  assumes "filter (\<lambda>r. up_userId r = u \<and> up_phraseId r = ph) (userProgress db) = p # ps"
  shows "completeDailyTask tz (Some db) now u tid ph isCorrect secs =
    Some (db\<lparr>dailyTasks :=
               (if isCorrect
                then scheduleLoop tz now u ph reviewSchedules
                       (map (markCompleted now tid isCorrect secs) (dailyTasks db))
                else map (markCompleted now tid isCorrect secs) (dailyTasks db)),
             userProgress := map (bumpCounters now isCorrect p) (userProgress db)\<rparr>)"
proof -
  have m: "(\<lambda>t. if dt_id t = tid
                 then t\<lparr>dt_status := Completed, dt_completedAt := Some now,
                        dt_isCorrect := Some (if isCorrect then 1 else 0),
                        dt_timeSpentSeconds := Some secs, dt_updatedAt := Some now\<rparr>
                 else t) = markCompleted now tid isCorrect secs"
    by (simp add: markCompleted_def fun_eq_iff)
  have b: "(\<lambda>r. if up_id r = up_id p
                 then r\<lparr>up_correctCount := up_correctCount p + (if isCorrect then 1 else 0),
                        up_incorrectCount := up_incorrectCount p + (if isCorrect then 0 else 1),
                        up_repetitions := up_repetitions p + 1,
                        up_lastReviewedAt := Some now,
                        up_updatedAt := Some now\<rparr>
                 else r) = bumpCounters now isCorrect p"
    by (simp add: bumpCounters_def fun_eq_iff)
  show ?thesis
    using assms by (simp add: completeDailyTask_def scheduleNextReviews_def Let_def m b)
qed

lemma completeDailyTask_new:
  assumes "filter (\<lambda>r. up_userId r = u \<and> up_phraseId r = ph) (userProgress db) = []"
    and "progressIdOf u ph now \<notin> set (map up_id (userProgress db))"
    and "length (progressIdOf u ph now) \<le> 64"
  shows "completeDailyTask tz (Some db) now u tid ph isCorrect secs =
    Some (db\<lparr>dailyTasks :=
               (if isCorrect
                then scheduleLoop tz now u ph reviewSchedules
                       (map (markCompleted now tid isCorrect secs) (dailyTasks db))
                else map (markCompleted now tid isCorrect secs) (dailyTasks db)),
             userProgress := userProgress db @
               [\<lparr>up_id = progressIdOf u ph now, up_userId = u, up_phraseId = ph,
                 up_interval = 1, up_easeFactor = 2500, up_repetitions = 0,
                 up_correctCount = (if isCorrect then 1 else 0),
                 up_incorrectCount = (if isCorrect then 0 else 1),
                 up_lastReviewedAt = None, up_nextReviewAt = now + msPerDay,
                 up_status = StatusLearning,
                 up_createdAt = Some now, up_updatedAt = Some now\<rparr>]\<rparr>)"
proof -
  have m: "(\<lambda>t. if dt_id t = tid
                 then t\<lparr>dt_status := Completed, dt_completedAt := Some now,
                        dt_isCorrect := Some (if isCorrect then 1 else 0),
                        dt_timeSpentSeconds := Some secs, dt_updatedAt := Some now\<rparr>
                 else t) = markCompleted now tid isCorrect secs"
    by (simp add: markCompleted_def fun_eq_iff)
  show ?thesis
    using assms
    by (simp add: completeDailyTask_def scheduleNextReviews_def Let_def m insertRow_def
        insertKeyed_def progressIdOf_def msPerDay_def)
qed


lemma reviewSchedules_types: "map snd reviewSchedules = checkpointTypes"
  by (simp add: reviewSchedules_def checkpointTypes_def)

lemma filter_bumpCounters:
  "filter (\<lambda>r. up_userId r = u \<and> up_phraseId r = ph) (map (bumpCounters now c p) rows) =
   map (bumpCounters now c p) (filter (\<lambda>r. up_userId r = u \<and> up_phraseId r = ph) rows)"
  by (induction rows) (auto simp: bumpCounters_def)

lemma first_call:
  assumes fresh: "\<forall>ty \<in> set checkpointTypes. taskCount (dailyTasks db) u ph ty = 0 \<longrightarrow>
                   taskIdOf u ph ty now \<notin> set (map dt_id (dailyTasks db)) \<and>
                   length (taskIdOf u ph ty now) \<le> 64"
    and pfresh: "filter (\<lambda>r. up_userId r = u \<and> up_phraseId r = ph) (userProgress db) = [] \<longrightarrow>
                 progressIdOf u ph now \<notin> set (map up_id (userProgress db)) \<and>
                 length (progressIdOf u ph now) \<le> 64"
  shows "\<exists>db'. completeDailyTask tz (Some db) now u tid ph True secs = Some db' \<and>
           (\<forall>ty. taskCount (dailyTasks db') u ph ty =
                  (if ty \<in> set checkpointTypes \<and> taskCount (dailyTasks db) u ph ty = 0 then 1
                   else taskCount (dailyTasks db) u ph ty)) \<and>
           filter (\<lambda>r. up_userId r = u \<and> up_phraseId r = ph) (userProgress db') \<noteq> []"
proof -
  let ?tasks = "map (markCompleted now tid True secs) (dailyTasks db)"
  have d: "distinct (map snd reviewSchedules)" by (simp add: reviewSchedules_def)
  have f: "\<forall>ty \<in> set (map snd reviewSchedules). taskCount ?tasks u ph ty = 0 \<longrightarrow>
             taskIdOf u ph ty now \<notin> set (map dt_id ?tasks) \<and> length (taskIdOf u ph ty now) \<le> 64"
    using fresh by (simp only: reviewSchedules_types ids_markCompleted taskCount_markCompleted)
  have counts: "taskCount (scheduleLoop tz now u ph reviewSchedules ?tasks) u ph ty =
                  (if ty \<in> set checkpointTypes \<and> taskCount (dailyTasks db) u ph ty = 0 then 1
                   else taskCount (dailyTasks db) u ph ty)" for ty
    using scheduleLoop_counts[OF d f, of tz ty]
    by (simp only: reviewSchedules_types taskCount_markCompleted)
  show ?thesis
  proof (cases "filter (\<lambda>r. up_userId r = u \<and> up_phraseId r = ph) (userProgress db)")
    case Nil
    with pfresh have "progressIdOf u ph now \<notin> set (map up_id (userProgress db))"
      and "length (progressIdOf u ph now) \<le> 64" by simp_all
    from completeDailyTask_new[OF Nil this, of tz tid True secs] counts
    show ?thesis by simp
  next
    case (Cons p ps)
    from completeDailyTask_existing[OF Cons, of tz now tid True secs] counts
    show ?thesis by (simp add: filter_bumpCounters Cons)
  qed
qed

lemma later_call:
  assumes "filter (\<lambda>r. up_userId r = u \<and> up_phraseId r = ph) (userProgress db) \<noteq> []"
    and "\<forall>ty \<in> set checkpointTypes. taskCount (dailyTasks db) u ph ty \<noteq> 0"
  shows "\<exists>db'. completeDailyTask tz (Some db) now u tid ph True secs = Some db' \<and>
           (\<forall>ty. taskCount (dailyTasks db') u ph ty = taskCount (dailyTasks db) u ph ty) \<and>
           filter (\<lambda>r. up_userId r = u \<and> up_phraseId r = ph) (userProgress db') \<noteq> []"
proof -
  let ?tasks = "map (markCompleted now tid True secs) (dailyTasks db)"
  obtain p ps where Cons: "filter (\<lambda>r. up_userId r = u \<and> up_phraseId r = ph) (userProgress db) = p # ps"
    using assms(1) by (cases "filter (\<lambda>r. up_userId r = u \<and> up_phraseId r = ph) (userProgress db)") auto
  have "\<forall>ty \<in> set (map snd reviewSchedules). taskCount ?tasks u ph ty \<noteq> 0"
    using assms(2) by (simp only: reviewSchedules_types taskCount_markCompleted)
  then have "scheduleLoop tz now u ph reviewSchedules ?tasks = ?tasks"
    by (rule scheduleLoop_all_present)
  with completeDailyTask_existing[OF Cons, where now = now and tid = tid and isCorrect = True and secs = secs and tz = tz]
  show ?thesis by (simp add: filter_bumpCounters Cons taskCount_markCompleted)
qed

lemma later_calls:
  assumes "filter (\<lambda>r. up_userId r = u \<and> up_phraseId r = ph) (userProgress db) \<noteq> []"
    and "\<forall>ty \<in> set checkpointTypes. taskCount (dailyTasks db) u ph ty \<noteq> 0"
  shows "\<exists>db'. completeRepeatedly tz (Some db) u ph calls = Some db' \<and>
           (\<forall>ty. taskCount (dailyTasks db') u ph ty = taskCount (dailyTasks db) u ph ty)"
  using assms
proof (induction calls arbitrary: db)
  case Nil
  then show ?case by simp
next
  case (Cons c calls)
  obtain now tid secs where c: "c = (now, tid, secs)" by (cases c)
  from later_call[OF Cons.prems, where now = now and tid = tid and secs = secs and tz = tz]
  obtain db1 where s: "completeDailyTask tz (Some db) now u tid ph True secs = Some db1"
    and k: "\<forall>ty. taskCount (dailyTasks db1) u ph ty = taskCount (dailyTasks db) u ph ty"
    and e: "filter (\<lambda>r. up_userId r = u \<and> up_phraseId r = ph) (userProgress db1) \<noteq> []"
    by blast
  have "\<forall>ty \<in> set checkpointTypes. taskCount (dailyTasks db1) u ph ty \<noteq> 0"
    using k Cons.prems(2) by simp
  from Cons.IH[OF e this]
  obtain db' where "completeRepeatedly tz (Some db1) u ph calls = Some db'"
    and "\<forall>ty. taskCount (dailyTasks db') u ph ty = taskCount (dailyTasks db1) u ph ty"
    by blast
  then show ?case using s k by (simp add: c)
qed

text \<open>
  Where the new ids fit their column, completing a task correctly is idempotent for the
  checkpoints. Take any run of one or more correct \<open>completeDailyTask\<close> calls for a user
  and a phrase, on a store where the ids that the first call builds for its new rows are
  free and have at most 64 characters. Afterwards a checkpoint type that had no task has
  exactly one, and every other count of tasks per (user, phrase, type) is what it was: no
  call adds a duplicate. So on a store with at most one task per (user, phrase, type)
  there is still at most one, and each of \<open>review_1\<close>, \<open>review_3\<close>, \<open>review_10\<close>,
  \<open>review_21\<close>, \<open>review_50\<close> exists exactly once.
\<close>

lemma checkpoints_idempotent:
  assumes fresh: "\<forall>ty \<in> set checkpointTypes. taskCount (dailyTasks db) userId phraseId ty = 0 \<longrightarrow>
      taskIdOf userId phraseId ty now \<notin> set (map dt_id (dailyTasks db)) \<and>
      length (taskIdOf userId phraseId ty now) \<le> 64"
    and pfresh: "filter (\<lambda>r. up_userId r = userId \<and> up_phraseId r = phraseId) (userProgress db) = [] \<longrightarrow>
      progressIdOf userId phraseId now \<notin> set (map up_id (userProgress db)) \<and>
      length (progressIdOf userId phraseId now) \<le> 64"
  shows "\<exists>db'. completeRepeatedly tz (Some db) userId phraseId ((now, taskId, secs) # calls) = Some db' \<and>
      (\<forall>ty. taskCount (dailyTasks db') userId phraseId ty =
             (if ty \<in> set checkpointTypes \<and> taskCount (dailyTasks db) userId phraseId ty = 0 then 1
              else taskCount (dailyTasks db) userId phraseId ty)) \<and>
      ((\<forall>ty. taskCount (dailyTasks db) userId phraseId ty \<le> 1) \<longrightarrow>
         (\<forall>ty. taskCount (dailyTasks db') userId phraseId ty \<le> 1) \<and>
         (\<forall>ty \<in> set checkpointTypes. taskCount (dailyTasks db') userId phraseId ty = 1))"
proof -
  from first_call[where u = userId and ph = phraseId and now = now and db = db
      and tid = taskId and secs = secs and tz = tz, OF fresh pfresh]
  obtain db1 where s: "completeDailyTask tz (Some db) now userId taskId phraseId True secs = Some db1"
    and k: "\<forall>ty. taskCount (dailyTasks db1) userId phraseId ty =
                  (if ty \<in> set checkpointTypes \<and> taskCount (dailyTasks db) userId phraseId ty = 0 then 1
                   else taskCount (dailyTasks db) userId phraseId ty)"
    and e: "filter (\<lambda>r. up_userId r = userId \<and> up_phraseId r = phraseId) (userProgress db1) \<noteq> []"
    by blast
  have nz: "\<forall>ty \<in> set checkpointTypes. taskCount (dailyTasks db1) userId phraseId ty \<noteq> 0"
    using k by simp
  from later_calls[OF e nz, of tz calls]
  obtain db' where r: "completeRepeatedly tz (Some db1) userId phraseId calls = Some db'"
    and k': "\<forall>ty. taskCount (dailyTasks db') userId phraseId ty = taskCount (dailyTasks db1) userId phraseId ty"
    by blast
  have c: "\<forall>ty. taskCount (dailyTasks db') userId phraseId ty =
             (if ty \<in> set checkpointTypes \<and> taskCount (dailyTasks db) userId phraseId ty = 0 then 1
              else taskCount (dailyTasks db) userId phraseId ty)"
    using k k' by simp
  have "(\<forall>ty. taskCount (dailyTasks db) userId phraseId ty \<le> 1) \<longrightarrow>
         (\<forall>ty. taskCount (dailyTasks db') userId phraseId ty \<le> 1) \<and>
         (\<forall>ty \<in> set checkpointTypes. taskCount (dailyTasks db') userId phraseId ty = 1)"
  proof (intro impI conjI allI ballI)
    fix ty assume a: "\<forall>ty. taskCount (dailyTasks db) userId phraseId ty \<le> 1"
    show "taskCount (dailyTasks db') userId phraseId ty \<le> 1" using a c by simp
  next
    fix ty assume a: "\<forall>ty. taskCount (dailyTasks db) userId phraseId ty \<le> 1"
      and m: "ty \<in> set checkpointTypes"
    have "taskCount (dailyTasks db) userId phraseId ty \<le> 1" using a by simp
    then show "taskCount (dailyTasks db') userId phraseId ty = 1" using c m
      by (cases "taskCount (dailyTasks db) userId phraseId ty = 0") auto
  qed
  then show ?thesis using s r c by simp
qed

text \<open>Two calls for the user \<open>u1\<close>, on a store with one pending task and no progress row.\<close>

lemma checkpoints_idempotent_example:
  "\<exists>db'. completeRepeatedly utc (Some taskDb) ''u1'' ''ph1'' [(1000, ''t0'', 5), (2000, ''t0'', 7)] = Some db' \<and>
      (\<forall>ty. taskCount (dailyTasks db') ''u1'' ''ph1'' ty \<le> 1) \<and>
      map (taskCount (dailyTasks db') ''u1'' ''ph1'') checkpointTypes = [1, 1, 1, 1, 1]"
proof -
  have s: "showInt 1000 = ''1000''" by (simp add: showInt_def showNat.simps)
  have f: "\<forall>ty \<in> set checkpointTypes. taskCount (dailyTasks taskDb) ''u1'' ''ph1'' ty = 0 \<longrightarrow>
      taskIdOf ''u1'' ''ph1'' ty 1000 \<notin> set (map dt_id (dailyTasks taskDb)) \<and>
      length (taskIdOf ''u1'' ''ph1'' ty 1000) \<le> 64"
    by (simp add: checkpointTypes_def taskIdOf_def taskDb_def exampleTask_def s)
  have q: "filter (\<lambda>r. up_userId r = ''u1'' \<and> up_phraseId r = ''ph1'') (userProgress taskDb) = [] \<longrightarrow>
      progressIdOf ''u1'' ''ph1'' 1000 \<notin> set (map up_id (userProgress taskDb)) \<and>
      length (progressIdOf ''u1'' ''ph1'' 1000) \<le> 64"
    by (simp add: taskDb_def progressIdOf_def s)
  have c: "\<forall>ty. taskCount (dailyTasks taskDb) ''u1'' ''ph1'' ty \<le> 1"
    by (simp add: taskCount_def taskDb_def exampleTask_def)
  from checkpoints_idempotent[where userId = "''u1''" and phraseId = "''ph1''" and now = 1000
      and db = taskDb and taskId = "''t0''" and secs = 5 and calls = "[(2000, ''t0'', 7)]"
      and tz = utc, OF f q]
  obtain db' where r: "completeRepeatedly utc (Some taskDb) ''u1'' ''ph1'' [(1000, ''t0'', 5), (2000, ''t0'', 7)] = Some db'"
    and i: "(\<forall>ty. taskCount (dailyTasks taskDb) ''u1'' ''ph1'' ty \<le> 1) \<longrightarrow>
         (\<forall>ty. taskCount (dailyTasks db') ''u1'' ''ph1'' ty \<le> 1) \<and>
         (\<forall>ty \<in> set checkpointTypes. taskCount (dailyTasks db') ''u1'' ''ph1'' ty = 1)"
    by blast
  from i c have a: "\<forall>ty. taskCount (dailyTasks db') ''u1'' ''ph1'' ty \<le> 1"
    and b: "\<forall>ty \<in> set checkpointTypes. taskCount (dailyTasks db') ''u1'' ''ph1'' ty = 1"
    by blast+
  from b have "map (taskCount (dailyTasks db') ''u1'' ''ph1'') checkpointTypes = [1, 1, 1, 1, 1]"
    by (simp add: checkpointTypes_def)
  with r a show ?thesis by auto
qed

text \<open>
  For a user id of 64 characters, as every registered user has one, the ids that the
  scheduler builds are longer than the 64 characters of the id column.
\<close>

lemma registered_ids_too_long:
  "length registeredUser = 64 \<and>
   length (taskIdOf registeredUser ''ph1'' Review_1 1000) = 87 \<and>
   length (progressIdOf registeredUser ''ph1'' 1000) = 82"
  by (simp add: registeredUser_def taskIdOf_def progressIdOf_def showInt_def showNat.simps)

text \<open>
  Two correct completions by such a user: the task is marked and the progress row bumped
  twice, but the insert of \<open>review_1\<close> is refused each time, which ends
  \<open>scheduleNextReviews\<close>, and no checkpoint is stored.
\<close>

lemma registered_user_store:
  "completeRepeatedly utc (Some registeredTaskDb) registeredUser ''ph1''
     [(1000, ''t0'', 5), (2000, ''t0'', 7)] =
   Some (registeredTaskDb
     \<lparr>dailyTasks :=
        [exampleTask\<lparr>dt_userId := registeredUser, dt_status := Completed,
           dt_completedAt := Some 2000, dt_isCorrect := Some 1,
           dt_timeSpentSeconds := Some 7, dt_updatedAt := Some 2000\<rparr>],
      userProgress :=
        [exampleProgress\<lparr>up_userId := registeredUser, up_correctCount := 4,
           up_repetitions := 4, up_lastReviewedAt := Some 2000,
           up_updatedAt := Some 2000\<rparr>]\<rparr>)"
  by (simp add: completeDailyTask_def scheduleNextReviews_def reviewSchedules_def insertRow_def
      registeredTaskDb_def registeredUser_def exampleTask_def exampleProgress_def Let_def
      showInt_def showNat.simps)

text \<open>
  Claim C5. For a registered user the claim fails: after two correct completions of a
  task the checkpoints \<open>review_3\<close>, \<open>review_10\<close>, \<open>review_21\<close> and \<open>review_50\<close> do
  not exist. (Here \<open>review_1\<close> is missing as well; a server that truncates an id to its
  first 64 characters would store \<open>review_1\<close> and refuse the other four, whose truncated
  ids are the same.)
\<close>

theorem checkpoints_refused_for_registered_user:
  "\<exists>db'. completeRepeatedly utc (Some registeredTaskDb) registeredUser ''ph1''
            [(1000, ''t0'', 5), (2000, ''t0'', 7)] = Some db' \<and>
         taskCount (dailyTasks db') registeredUser ''ph1'' Review_3 = 0 \<and>
         taskCount (dailyTasks db') registeredUser ''ph1'' Review_10 = 0 \<and>
         taskCount (dailyTasks db') registeredUser ''ph1'' Review_21 = 0 \<and>
         taskCount (dailyTasks db') registeredUser ''ph1'' Review_50 = 0"
  unfolding registered_user_store
  by (simp add: taskCount_def exampleTask_def)

lemma nth_map_bumpCounters:
  "i < length rows \<Longrightarrow> map (bumpCounters now c p) rows ! i = bumpCounters now c p (rows ! i)"
  by simp

text \<open>
  Claim C6. When the user has a progress row \<open>p\<close> for the phrase, \<open>completeDailyTask\<close>
  adds 1 to its correct count or to its incorrect count, as \<open>isCorrect\<close> says, adds 1 to
  its repetitions and sets its last review to now; its interval, ease factor, next review
  and status stay as they were, and so does every row with another id.
\<close>

theorem completeDailyTask_counters:
  "filter (\<lambda>r. up_userId r = userId \<and> up_phraseId r = phraseId) (userProgress db) = p # ps \<longrightarrow>
   (\<exists>db'. completeDailyTask tz (Some db) now userId taskId phraseId isCorrect secs = Some db' \<and>
      length (userProgress db') = length (userProgress db) \<and>
      (\<forall>i < length (userProgress db).
         (up_id (userProgress db ! i) \<noteq> up_id p \<longrightarrow> userProgress db' ! i = userProgress db ! i) \<and>
         (userProgress db ! i = p \<longrightarrow>
            up_correctCount (userProgress db' ! i) = up_correctCount p + (if isCorrect then 1 else 0) \<and>
            up_incorrectCount (userProgress db' ! i) = up_incorrectCount p + (if isCorrect then 0 else 1) \<and>
            up_repetitions (userProgress db' ! i) = up_repetitions p + 1 \<and>
            up_lastReviewedAt (userProgress db' ! i) = Some now \<and>
            up_interval (userProgress db' ! i) = up_interval p \<and>
            up_easeFactor (userProgress db' ! i) = up_easeFactor p \<and>
            up_nextReviewAt (userProgress db' ! i) = up_nextReviewAt p \<and>
            up_status (userProgress db' ! i) = up_status p \<and>
            up_id (userProgress db' ! i) = up_id p \<and>
            up_userId (userProgress db' ! i) = userId \<and>
            up_phraseId (userProgress db' ! i) = phraseId)))"
proof
  assume h: "filter (\<lambda>r. up_userId r = userId \<and> up_phraseId r = phraseId) (userProgress db) = p # ps"
  then have "p \<in> set (filter (\<lambda>r. up_userId r = userId \<and> up_phraseId r = phraseId) (userProgress db))"
    by simp
  then have pu: "up_userId p = userId" and pp: "up_phraseId p = phraseId" by simp_all
  let ?db' = "db\<lparr>dailyTasks :=
               (if isCorrect
                then scheduleLoop tz now userId phraseId reviewSchedules
                       (map (markCompleted now taskId isCorrect secs) (dailyTasks db))
                else map (markCompleted now taskId isCorrect secs) (dailyTasks db)),
             userProgress := map (bumpCounters now isCorrect p) (userProgress db)\<rparr>"
  have r: "completeDailyTask tz (Some db) now userId taskId phraseId isCorrect secs = Some ?db'"
    using h by (rule completeDailyTask_existing)
  have u: "userProgress ?db' = map (bumpCounters now isCorrect p) (userProgress db)" by simp
  have "length (userProgress ?db') = length (userProgress db) \<and>
      (\<forall>i < length (userProgress db).
         (up_id (userProgress db ! i) \<noteq> up_id p \<longrightarrow> userProgress ?db' ! i = userProgress db ! i) \<and>
         (userProgress db ! i = p \<longrightarrow>
            up_correctCount (userProgress ?db' ! i) = up_correctCount p + (if isCorrect then 1 else 0) \<and>
            up_incorrectCount (userProgress ?db' ! i) = up_incorrectCount p + (if isCorrect then 0 else 1) \<and>
            up_repetitions (userProgress ?db' ! i) = up_repetitions p + 1 \<and>
            up_lastReviewedAt (userProgress ?db' ! i) = Some now \<and>
            up_interval (userProgress ?db' ! i) = up_interval p \<and>
            up_easeFactor (userProgress ?db' ! i) = up_easeFactor p \<and>
            up_nextReviewAt (userProgress ?db' ! i) = up_nextReviewAt p \<and>
            up_status (userProgress ?db' ! i) = up_status p \<and>
            up_id (userProgress ?db' ! i) = up_id p \<and>
            up_userId (userProgress ?db' ! i) = userId \<and>
            up_phraseId (userProgress ?db' ! i) = phraseId))"
    unfolding u using pu pp by (auto simp: bumpCounters_def)
  with r show "\<exists>db'. completeDailyTask tz (Some db) now userId taskId phraseId isCorrect secs = Some db' \<and>
      length (userProgress db') = length (userProgress db) \<and>
      (\<forall>i < length (userProgress db).
         (up_id (userProgress db ! i) \<noteq> up_id p \<longrightarrow> userProgress db' ! i = userProgress db ! i) \<and>
         (userProgress db ! i = p \<longrightarrow>
            up_correctCount (userProgress db' ! i) = up_correctCount p + (if isCorrect then 1 else 0) \<and>
            up_incorrectCount (userProgress db' ! i) = up_incorrectCount p + (if isCorrect then 0 else 1) \<and>
            up_repetitions (userProgress db' ! i) = up_repetitions p + 1 \<and>
            up_lastReviewedAt (userProgress db' ! i) = Some now \<and>
            up_interval (userProgress db' ! i) = up_interval p \<and>
            up_easeFactor (userProgress db' ! i) = up_easeFactor p \<and>
            up_nextReviewAt (userProgress db' ! i) = up_nextReviewAt p \<and>
            up_status (userProgress db' ! i) = up_status p \<and>
            up_id (userProgress db' ! i) = up_id p \<and>
            up_userId (userProgress db' ! i) = userId \<and>
            up_phraseId (userProgress db' ! i) = phraseId))"
    by blast
qed

text \<open>An incorrect answer on the example row.\<close>

theorem completeDailyTask_counters_witness:
  "filter (\<lambda>r. up_userId r = ''u1'' \<and> up_phraseId r = ''ph1'') (userProgress taskProgressDb) =
     exampleProgress # [] \<and>
   userProgress taskProgressDb ! 0 = exampleProgress \<and>
   (\<exists>db'. completeDailyTask utc (Some taskProgressDb) 1000 ''u1'' ''t0'' ''ph1'' False 5 = Some db' \<and>
      length (userProgress db') = 1 \<and>
      up_correctCount (userProgress db' ! 0) = 2 \<and>
      up_incorrectCount (userProgress db' ! 0) = 1 \<and>
      up_repetitions (userProgress db' ! 0) = 3 \<and>
      up_lastReviewedAt (userProgress db' ! 0) = Some 1000 \<and>
      up_interval (userProgress db' ! 0) = 3 \<and>
      up_easeFactor (userProgress db' ! 0) = 1350 \<and>
      up_nextReviewAt (userProgress db' ! 0) = 100 \<and>
      up_status (userProgress db' ! 0) = StatusLearning)"
proof -
  have h: "filter (\<lambda>r. up_userId r = ''u1'' \<and> up_phraseId r = ''ph1'') (userProgress taskProgressDb) =
     exampleProgress # []"
    by (simp add: taskProgressDb_def taskDb_def exampleProgress_def)
  have z: "userProgress taskProgressDb ! 0 = exampleProgress" "length (userProgress taskProgressDb) = 1"
    by (simp_all add: taskProgressDb_def)
  from completeDailyTask_counters[where userId = "''u1''" and phraseId = "''ph1''"
      and db = taskProgressDb and p = exampleProgress and ps = "[]" and now = 1000
      and taskId = "''t0''" and isCorrect = False and secs = 5 and tz = utc] h
  obtain db' where r: "completeDailyTask utc (Some taskProgressDb) 1000 ''u1'' ''t0'' ''ph1'' False 5 = Some db'"
    and l: "length (userProgress db') = length (userProgress taskProgressDb)"
    and a: "\<forall>i < length (userProgress taskProgressDb).
         (up_id (userProgress taskProgressDb ! i) \<noteq> up_id exampleProgress \<longrightarrow>
            userProgress db' ! i = userProgress taskProgressDb ! i) \<and>
         (userProgress taskProgressDb ! i = exampleProgress \<longrightarrow>
            up_correctCount (userProgress db' ! i) = up_correctCount exampleProgress + (if False then 1 else 0) \<and>
            up_incorrectCount (userProgress db' ! i) = up_incorrectCount exampleProgress + (if False then 0 else 1) \<and>
            up_repetitions (userProgress db' ! i) = up_repetitions exampleProgress + 1 \<and>
            up_lastReviewedAt (userProgress db' ! i) = Some 1000 \<and>
            up_interval (userProgress db' ! i) = up_interval exampleProgress \<and>
            up_easeFactor (userProgress db' ! i) = up_easeFactor exampleProgress \<and>
            up_nextReviewAt (userProgress db' ! i) = up_nextReviewAt exampleProgress \<and>
            up_status (userProgress db' ! i) = up_status exampleProgress \<and>
            up_id (userProgress db' ! i) = up_id exampleProgress \<and>
            up_userId (userProgress db' ! i) = ''u1'' \<and>
            up_phraseId (userProgress db' ! i) = ''ph1'')"
    by blast
  from a z have "up_correctCount (userProgress db' ! 0) = 2 \<and>
      up_incorrectCount (userProgress db' ! 0) = 1 \<and>
      up_repetitions (userProgress db' ! 0) = 3 \<and>
      up_lastReviewedAt (userProgress db' ! 0) = Some 1000 \<and>
      up_interval (userProgress db' ! 0) = 3 \<and>
      up_easeFactor (userProgress db' ! 0) = 1350 \<and>
      up_nextReviewAt (userProgress db' ! 0) = 100 \<and>
      up_status (userProgress db' ! 0) = StatusLearning"
    by (simp add: exampleProgress_def)
  with r l z h show ?thesis by auto
qed

section \<open>Mastery percentage\<close>

lemma binary64_nonneg: "0 \<le> x \<Longrightarrow> 0 \<le> binary64 x"
  using binary64_mono[of 0 x] by simp

lemma binary64_50: "binary64 50 = 50"
  using binary64_exact[of 50 0] by simp

lemma binary64_100: "binary64 100 = 100"
  using binary64_exact[of 100 0] by simp

lemma score_bounds:
  assumes "0 \<le> x"
  shows "0 \<le> js_mul (Math_min x 1) 50" and "js_mul (Math_min x 1) 50 \<le> 50"
proof -
  have m: "0 \<le> Math_min x 1" "Math_min x 1 \<le> 1" using assms by (simp_all add: Math_min_def)
  then have "0 \<le> Math_min x 1 * 50" by simp
  then show "0 \<le> js_mul (Math_min x 1) 50" unfolding js_mul_def by (rule binary64_nonneg)
  have "Math_min x 1 * 50 \<le> 50" using m by simp
  then have "binary64 (Math_min x 1 * 50) \<le> binary64 50" by (rule binary64_mono)
  then show "js_mul (Math_min x 1) 50 \<le> 50" by (simp add: js_mul_def binary64_50)
qed

lemma Math_round_bounds:
  assumes "0 \<le> x" "x \<le> 100"
  shows "0 \<le> Math_round x" and "Math_round x \<le> 100"
proof -
  have "Math_round (of_int 0) \<le> Math_round x" using assms by (intro Math_round_mono) simp
  then show "0 \<le> Math_round x" by (simp only: Math_round_of_int)
  have "Math_round x \<le> Math_round (of_int 100)" using assms by (intro Math_round_mono) simp
  then show "Math_round x \<le> 100" by (simp only: Math_round_of_int)
qed

lemma mastery_bounds:
  assumes "0 \<le> repetitions s" "1300 \<le> easeFactor s"
  shows "0 \<le> calculateMasteryPercentage s" and "calculateMasteryPercentage s \<le> 100"
proof -
  define a where "a = js_mul (Math_min (js_div (of_int (repetitions s)) 10) 1) 50"
  define b where "b = js_mul (Math_min (js_div (js_sub (of_int (easeFactor s)) 1300) 1700) 1) 50"
  have "0 \<le> (of_int (repetitions s) :: rat) / 10" using assms by simp
  then have "0 \<le> js_div (of_int (repetitions s)) 10" unfolding js_div_def by (rule binary64_nonneg)
  then have a: "0 \<le> a" "a \<le> 50" unfolding a_def by (rule score_bounds)+
  have "0 \<le> (of_int (easeFactor s) :: rat) - 1300" using assms by simp
  then have "0 \<le> js_sub (of_int (easeFactor s)) 1300" unfolding js_sub_def by (rule binary64_nonneg)
  then have "0 \<le> js_sub (of_int (easeFactor s)) 1300 / 1700" by simp
  then have "0 \<le> js_div (js_sub (of_int (easeFactor s)) 1300) 1700"
    unfolding js_div_def by (rule binary64_nonneg)
  then have b: "0 \<le> b" "b \<le> 50" unfolding b_def by (rule score_bounds)+
  have "0 \<le> a + b" using a b by simp
  then have lo: "0 \<le> js_add a b" unfolding js_add_def by (rule binary64_nonneg)
  have "a + b \<le> 100" using a b by simp
  then have "binary64 (a + b) \<le> binary64 100" by (rule binary64_mono)
  then have hi: "js_add a b \<le> 100" by (simp add: js_add_def binary64_100)
  have c: "calculateMasteryPercentage s = Math_round (js_add a b)"
    by (simp add: calculateMasteryPercentage_def a_def b_def Let_def)
  show "0 \<le> calculateMasteryPercentage s" and "calculateMasteryPercentage s \<le> 100"
    unfolding c using lo hi by (rule Math_round_bounds)+
qed

lemma binary64_1: "binary64 1 = 1"
  using binary64_exact[of 1 0] by simp

lemma score_error:
  assumes "0 \<le> x"
  shows "\<bar>js_mul (Math_min (binary64 x) 1) 50 - min x 1 * 50\<bar> \<le> 1 / 2 ^ 46"
proof (cases "1 \<le> x")
  case True
  then have "binary64 1 \<le> binary64 x" by (rule binary64_mono)
  then have "1 \<le> binary64 x" by (simp only: binary64_1)
  then have "Math_min (binary64 x) 1 = 1" by (simp add: Math_min_def)
  then show ?thesis using True by (simp add: js_mul_def binary64_50)
next
  case False
  then have x1: "x \<le> 1" by simp
  define b where "b = binary64 x"
  have "binary64 x \<le> binary64 1" using x1 by (rule binary64_mono)
  then have b1: "b \<le> 1" by (simp only: binary64_1 b_def)
  have b0: "0 \<le> b" unfolding b_def using assms by (rule binary64_nonneg)
  have "\<bar>b - x\<bar> \<le> \<bar>x\<bar> / 2 ^ 53" unfolding b_def by (rule binary64_error)
  also have "\<dots> \<le> 1 / 2 ^ 53" using assms x1 by (simp add: divide_right_mono)
  finally have bx: "\<bar>b - x\<bar> \<le> 1 / 2 ^ 53" .
  have "\<bar>binary64 (b * 50) - b * 50\<bar> \<le> \<bar>b * 50\<bar> / 2 ^ 53" by (rule binary64_error)
  also have "\<dots> \<le> 50 / 2 ^ 53" using b0 b1 by (simp add: divide_right_mono)
  finally have p: "\<bar>binary64 (b * 50) - b * 50\<bar> \<le> 50 / 2 ^ 53" .
  have "b * 50 - x * 50 = (b - x) * 50" by (simp add: left_diff_distrib)
  then have "\<bar>b * 50 - x * 50\<bar> = \<bar>(b - x) * 50\<bar>" by (simp only:)
  also have "\<dots> = 50 * \<bar>b - x\<bar>" by (subst abs_mult) simp
  finally have "\<bar>b * 50 - x * 50\<bar> = 50 * \<bar>b - x\<bar>" .
  then have "\<bar>binary64 (b * 50) - x * 50\<bar> \<le> \<bar>binary64 (b * 50) - b * 50\<bar> + 50 * \<bar>b - x\<bar>"
    by linarith
  also have "\<dots> \<le> 50 / 2 ^ 53 + 50 * (1 / 2 ^ 53)"
    using p bx by (intro add_mono mult_left_mono) simp_all
  also have "\<dots> \<le> 1 / 2 ^ 46" by simp
  finally have "\<bar>binary64 (b * 50) - x * 50\<bar> \<le> 1 / 2 ^ 46" .
  moreover have "Math_min b 1 = b" using b1 by (simp add: Math_min_def)
  moreover have "min x 1 = x" using x1 by simp
  ultimately show ?thesis by (simp add: js_mul_def b_def)
qed

lemma easeFactor_quotient:
  assumes "1300 \<le> ef"
  shows "0 \<le> js_sub (of_int ef) 1300 / 1700"
    and "min (js_sub (of_int ef) 1300 / 1700) 1 = min (max (of_int ef - 1300) 0 / 1700) 1"
proof -
  have nn: "0 \<le> (of_int ef :: rat) - 1300" using assms by simp
  then have "0 \<le> js_sub (of_int ef) 1300" unfolding js_sub_def by (rule binary64_nonneg)
  then show "0 \<le> js_sub (of_int ef) 1300 / 1700" by simp
  show "min (js_sub (of_int ef) 1300 / 1700) 1 = min (max (of_int ef - 1300) 0 / 1700) 1"
  proof (cases "3000 \<le> ef")
    case True
    then have r: "(1700::rat) \<le> of_int ef - 1300" by simp
    then have "binary64 1700 \<le> binary64 (of_int ef - 1300)" by (rule binary64_mono)
    moreover have "binary64 1700 = 1700" using binary64_exact[of 1700 0] by simp
    ultimately have "1700 \<le> js_sub (of_int ef) 1300" by (simp add: js_sub_def)
    then show ?thesis using r by simp
  next
    case False
    then have "\<bar>ef - 1300\<bar> < 2 ^ 53" using assms by simp
    from binary64_exact[OF this, of 0]
    have "js_sub (of_int ef) 1300 = of_int ef - 1300" by (simp add: js_sub_def)
    then show ?thesis using nn by simp
  qed
qed

lemma masteryScore_fraction:
  "spec_masteryScore s =
     of_int (34 * min (5 * repetitions s) 50 + min (max (easeFactor s - 1300) 0) 1700) / of_int 34"
proof -
  have a: "min (of_int (repetitions s) / 10) 1 * (50::rat) = of_int (min (5 * repetitions s) 50)"
    by (cases "repetitions s \<le> 10") (simp_all add: min_def)
  have b: "min (max (of_int (easeFactor s) - 1300) 0 / 1700) 1 * (50::rat) =
      of_int (min (max (easeFactor s - 1300) 0) 1700) / 34"
    by (cases "easeFactor s \<le> 1300"; cases "easeFactor s \<le> 3000") (simp_all add: min_def max_def)
  show ?thesis unfolding spec_masteryScore_def a b by (simp add: add_divide_distrib)
qed

lemma mastery_nearest:
  assumes "0 \<le> repetitions s" "1300 \<le> easeFactor s"
  shows "\<bar>of_int (calculateMasteryPercentage s) - spec_masteryScore s\<bar> \<le> 1 / 2"
    and "frac (spec_masteryScore s) \<noteq> 1 / 2 \<Longrightarrow>
           calculateMasteryPercentage s = spec_masteryPercent s"
proof -
  define x1 :: rat where "x1 = of_int (repetitions s) / 10"
  define x2 :: rat where "x2 = js_sub (of_int (easeFactor s)) 1300 / 1700"
  define a where "a = js_mul (Math_min (binary64 x1) 1) 50"
  define b where "b = js_mul (Math_min (binary64 x2) 1) 50"
  define v where "v = spec_masteryScore s"
  have x1: "0 \<le> x1" using assms by (simp add: x1_def)
  have x2: "0 \<le> x2" unfolding x2_def using assms(2) by (rule easeFactor_quotient)
  have m2: "min x2 1 = min (max (of_int (easeFactor s) - 1300) 0 / 1700) 1"
    unfolding x2_def using assms(2) by (rule easeFactor_quotient)
  have ea: "\<bar>a - min x1 1 * 50\<bar> \<le> 1 / 2 ^ 46" unfolding a_def using x1 by (rule score_error)
  have eb: "\<bar>b - min x2 1 * 50\<bar> \<le> 1 / 2 ^ 46" unfolding b_def using x2 by (rule score_error)
  have "0 \<le> binary64 x1" using x1 by (rule binary64_nonneg)
  then have ab: "0 \<le> a" "a \<le> 50" unfolding a_def by (rule score_bounds)+
  have "0 \<le> binary64 x2" using x2 by (rule binary64_nonneg)
  then have bb: "0 \<le> b" "b \<le> 50" unfolding b_def by (rule score_bounds)+
  have "\<bar>binary64 (a + b) - (a + b)\<bar> \<le> \<bar>a + b\<bar> / 2 ^ 53" by (rule binary64_error)
  also have "\<dots> \<le> 100 / 2 ^ 53" using ab bb by (simp add: divide_right_mono)
  finally have es: "\<bar>binary64 (a + b) - (a + b)\<bar> \<le> 100 / 2 ^ 53" .
  have vv: "v = min x1 1 * 50 + min x2 1 * 50"
    by (simp only: v_def spec_masteryScore_def x1_def m2)
  have "\<bar>js_add a b - v\<bar> \<le>
      \<bar>binary64 (a + b) - (a + b)\<bar> + \<bar>a - min x1 1 * 50\<bar> + \<bar>b - min x2 1 * 50\<bar>"
    unfolding vv js_add_def by linarith
  also have "\<dots> \<le> 100 / 2 ^ 53 + 1 / 2 ^ 46 + 1 / 2 ^ 46" using es ea eb by linarith
  also have "\<dots> < 1 / of_int 34" by simp
  finally have err: "\<bar>js_add a b - v\<bar> < 1 / of_int 34" .
  have vk: "v = of_int (34 * min (5 * repetitions s) 50 + min (max (easeFactor s - 1300) 0) 1700) /
      of_int 34"
    unfolding v_def by (rule masteryScore_fraction)
  have c: "calculateMasteryPercentage s = Math_round (js_add a b)"
    by (simp add: calculateMasteryPercentage_def a_def b_def x1_def x2_def js_div_def Let_def)
  show "\<bar>of_int (calculateMasteryPercentage s) - spec_masteryScore s\<bar> \<le> 1 / 2"
    unfolding c v_def[symmetric] by (rule Math_round_near(1)[OF _ _ vk err]) simp_all
  show "calculateMasteryPercentage s = spec_masteryPercent s"
    if "frac (spec_masteryScore s) \<noteq> 1 / 2"
    unfolding c spec_masteryPercent_def v_def[symmetric]
    using that unfolding v_def[symmetric] by (rule Math_round_near(2)[OF _ _ vk err, rotated 2]) simp_all
qed

text \<open>
  Claim C7, as amended. For a state with \<open>repetitions \<ge> 0\<close> and \<open>easeFactor \<ge> 1300\<close>,
  \<open>calculateMasteryPercentage\<close> returns an integer nearest to the score
  \<open>min(repetitions/10,1)*50 + min(max(easeFactor-1300,0)/1700,1)*50\<close>: it is the rounded
  score unless the score lies halfway between two integers, where the double-precision sum
  can fall on either side, and it lies between 0 and 100; for
  \<open>{repetitions: 10, easeFactor: 3000}\<close> it is 100.
\<close>

theorem calculateMasteryPercentage_spec:
  "(0 \<le> repetitions s \<and> 1300 \<le> easeFactor s \<longrightarrow>
      \<bar>of_int (calculateMasteryPercentage s) - spec_masteryScore s\<bar> \<le> 1 / 2 \<and>
      (frac (spec_masteryScore s) \<noteq> 1 / 2 \<longrightarrow>
         calculateMasteryPercentage s = spec_masteryPercent s) \<and>
      0 \<le> calculateMasteryPercentage s \<and> calculateMasteryPercentage s \<le> 100) \<and>
   calculateMasteryPercentage
     \<lparr>interval = i, easeFactor = 3000, repetitions = 10, nextReviewAt = t\<rparr> = 100"
proof (intro conjI impI)
  assume "0 \<le> repetitions s \<and> 1300 \<le> easeFactor s"
  then have r: "0 \<le> repetitions s" and e: "1300 \<le> easeFactor s" by simp_all
  from r e show "\<bar>of_int (calculateMasteryPercentage s) - spec_masteryScore s\<bar> \<le> 1 / 2"
    by (rule mastery_nearest)
  from r e show "0 \<le> calculateMasteryPercentage s" by (rule mastery_bounds)
  from r e show "calculateMasteryPercentage s \<le> 100" by (rule mastery_bounds)
  assume "frac (spec_masteryScore s) \<noteq> 1 / 2"
  with r e show "calculateMasteryPercentage s = spec_masteryPercent s"
    by (rule mastery_nearest)
next
  show "calculateMasteryPercentage
     \<lparr>interval = i, easeFactor = 3000, repetitions = 10, nextReviewAt = t\<rparr> = 100"
    by code_simp
qed

text \<open>Five repetitions and ease factor 2500: 25 for the repetitions and 35.29 for the
  ease factor.\<close>

theorem calculateMasteryPercentage_spec_witness:
  "0 \<le> repetitions exampleState \<and> 1300 \<le> easeFactor exampleState \<and>
   frac (spec_masteryScore exampleState) \<noteq> 1 / 2 \<and>
   calculateMasteryPercentage exampleState = 60 \<and> spec_masteryPercent exampleState = 60 \<and>
   (0::int) \<le> 60 \<and> (60::int) \<le> 100"
proof -
  have h: "0 \<le> repetitions exampleState \<and> 1300 \<le> easeFactor exampleState"
    by (simp add: exampleState_def)
  have f: "frac (spec_masteryScore exampleState) \<noteq> 1 / 2" by code_simp
  have v: "spec_masteryPercent exampleState = 60" by code_simp
  from calculateMasteryPercentage_spec[of exampleState] h f v
  show ?thesis by simp
qed

text \<open>
  Claim C7 as stated fails: with repetitions 0 and ease factor 1793 the score is 14.5,
  which rounds to 15, and the code returns 14. Rounding a tie to the even neighbour does
  not describe the code either: with ease factor 1317 the score is 0.5 and the code
  returns 1.
\<close>

theorem mastery_tie_counterexample:
  "calculateMasteryPercentage
     \<lparr>interval = 1, easeFactor = 1793, repetitions = 0, nextReviewAt = 0\<rparr> = 14 \<and>
   spec_masteryScore \<lparr>interval = 1, easeFactor = 1793, repetitions = 0, nextReviewAt = 0\<rparr> = 29 / 2 \<and>
   spec_masteryPercent \<lparr>interval = 1, easeFactor = 1793, repetitions = 0, nextReviewAt = 0\<rparr> = 15 \<and>
   calculateMasteryPercentage
     \<lparr>interval = 1, easeFactor = 1317, repetitions = 0, nextReviewAt = 0\<rparr> = 1 \<and>
   spec_masteryScore \<lparr>interval = 1, easeFactor = 1317, repetitions = 0, nextReviewAt = 0\<rparr> = 1 / 2 \<and>
   round_half_even (1 / 2) = 0"
  by code_simp

section \<open>Words due for review\<close>

lemma rw_nextReviewAt_reviewWordOf [simp]:
  "rw_nextReviewAt (reviewWordOf p ph) = up_nextReviewAt p"
  by (simp add: reviewWordOf_def)

lemma getWordsForReview_due:
  assumes "w \<in> set (getWordsForReview_query db now userId)"
  shows "rw_nextReviewAt w \<le> now"
proof -
  from assms have "w \<in> set (map (\<lambda>(p, ph). reviewWordOf p ph)
         (orderByDesc (\<lambda>(p, ph). up_nextReviewAt p)
           (filter (\<lambda>(p, ph). up_userId p = userId \<and> up_nextReviewAt p \<le> now)
             (progressJoinPhrases db))))"
    unfolding getWordsForReview_query_def by (rule in_set_takeD)
  then show ?thesis by (auto simp: orderByDesc_def)
qed

lemma getWordsForReview_descending:
  "sorted (rev (map rw_nextReviewAt (getWordsForReview_query db now userId)))"
proof -
  define rows where "rows = filter (\<lambda>(p, ph). up_userId p = userId \<and> up_nextReviewAt p \<le> now)
             (progressJoinPhrases db)"
  define key :: "userProgressRow \<times> phrase \<Rightarrow> int" where "key = (\<lambda>(p, ph). up_nextReviewAt p)"
  have m: "map rw_nextReviewAt (map (\<lambda>(p, ph). reviewWordOf p ph) xs) = map key xs" for xs
    by (induction xs) (auto simp: key_def)
  have "getWordsForReview_query db now userId =
          take 20 (map (\<lambda>(p, ph). reviewWordOf p ph) (rev (sort_key key rows)))"
    by (simp add: getWordsForReview_query_def orderByDesc_def rows_def key_def)
  then have "map rw_nextReviewAt (getWordsForReview_query db now userId) =
          take 20 (rev (map key (sort_key key rows)))"
    by (simp only: take_map[symmetric] m rev_map)
  moreover have "sorted (rev (take 20 (rev (map key (sort_key key rows)))))"
    by (simp add: rev_take)
  ultimately show ?thesis by simp
qed

lemma getPhrasesForReview_ascending:
  "sorted (map (\<lambda>(p, ph). up_nextReviewAt p) (getPhrasesForReview dbo now userId limit))"
  by (cases dbo) (simp_all add: getPhrasesForReview_def orderByAsc_def take_map[symmetric])

text \<open>The handler throws on every store, also for a user with nothing due.\<close>

lemma getWordsForReview_throws:
  "getWordsForReview store now userId = Inl TypeError"
  by (simp add: getWordsForReview_def getDb_def)

text \<open>
  Claim C4. As it is written the handler returns no list: its \<open>db\<close> is the promise that
  \<open>getDb()\<close> returns, and the query throws a \<open>TypeError\<close>, here on the example store.
  The query itself, run on a client, returns only progress rows whose next review is at or
  before now (\<open>getWordsForReview_due\<close>), but it orders them by descending next review
  (\<open>getWordsForReview_descending\<close>), not most overdue first: the rows due at 100 and at
  200 come back as 200, 100, while the helper \<open>getPhrasesForReview\<close> of the store module
  returns them as 100, 200.
\<close>

theorem getWordsForReview_order_example:
  "getWordsForReview (Some reviewDb) 300 ''u1'' = Inl TypeError \<and>
   map rw_nextReviewAt (getWordsForReview_query reviewDb 300 ''u1'') = [200, 100] \<and>
   map (\<lambda>(p, ph). up_nextReviewAt p) (getPhrasesForReview (Some reviewDb) 300 ''u1'' 20) = [100, 200]"
  by code_simp

section \<open>Learning analytics\<close>
















text \<open>On the update the record keeps its \<open>optimalDailyLoad\<close>: here 20, next to the new
  average of 1.\<close>

lemma updateLearningAnalytics_update_keeps_load:
  "map la_optimalDailyLoad (learningAnalytics analyticsDb) = [20] \<and>
   updateLearningAnalytics utc (Some analyticsDb) 1000 ''u1'' =
     Some (analyticsDb\<lparr>learningAnalytics :=
        [exampleAnalytics\<lparr>la_avgPhrasesPerDay := 1, la_avgRetention := 75,
           la_learningPace := Slow, la_lastAnalyzedAt := Some 1000,
           la_updatedAt := Some 1000\<rparr>]\<rparr>)"
  by code_simp

text \<open>
  For a registered user without a record the id of the new record has 79 characters: the
  insert is refused and nothing is stored.
\<close>

lemma updateLearningAnalytics_long_id:
  "length (''analytics_'' @ registeredUser @ ''_'' @ showInt 1000) = 79 \<and>
   sessionsInWindow utc registeredSessionDb 1000 registeredUser \<noteq> [] \<and>
   updateLearningAnalytics utc (Some registeredSessionDb) 1000 registeredUser =
     Some registeredSessionDb"
  by code_simp


end
